theory Spec2Isabelle
  imports Complex_Main "HOL-Library.Sublist"
begin

section \<open>JavaScript numbers that may be non-finite\<close>

text \<open>
  The sources compute with JavaScript numbers. Values that arrive as JSON are finite;
  the two places a non-finite number can appear are \<open>new Date(s).getTime()\<close>, which is
  \<open>NaN\<close> for a string that is not a date, and the literal \<open>Infinity\<close> that initialises
  \<open>minDiff\<close>. Times are integral milliseconds.
\<close>

datatype jsnum = Num int | Infinity | NaN

text \<open>\<open>a < b\<close>, \<open>a <= b\<close>, \<open>a >= b\<close> of JavaScript: every comparison with \<open>NaN\<close> is false.\<close>

fun js_lt :: "jsnum \<Rightarrow> jsnum \<Rightarrow> bool" where
  "js_lt (Num a) (Num b) = (a < b)"
| "js_lt (Num a) Infinity = True"
| "js_lt _ _ = False"

fun js_le :: "jsnum \<Rightarrow> jsnum \<Rightarrow> bool" where
  "js_le (Num a) (Num b) = (a \<le> b)"
| "js_le (Num a) Infinity = True"
| "js_le Infinity Infinity = True"
| "js_le _ _ = False"

definition js_ge :: "jsnum \<Rightarrow> jsnum \<Rightarrow> bool" where
  "js_ge a b = js_le b a"

text \<open>\<open>Math.abs(a - b)\<close>.\<close>

fun js_abs_diff :: "jsnum \<Rightarrow> jsnum \<Rightarrow> jsnum" where
  "js_abs_diff (Num a) (Num b) = Num \<bar>a - b\<bar>"
| "js_abs_diff NaN _ = NaN"
| "js_abs_diff _ NaN = NaN"
| "js_abs_diff Infinity Infinity = NaN"
| "js_abs_diff _ _ = Infinity"

text \<open>
  \<open>new Date(s)\<close> is a function of the platform: the development takes it as a parameter,
  so every theorem holds for whatever the parser answers. \<open>None\<close> is an invalid Date,
  \<open>Some ms\<close> the instant in milliseconds; \<open>getTime\<close> of an invalid Date is \<open>NaN\<close>.
\<close>

type_synonym date_parser = "string \<Rightarrow> int option"

definition getTime :: "int option \<Rightarrow> jsnum" where
  "getTime d = (case d of None \<Rightarrow> NaN | Some ms \<Rightarrow> Num ms)"

section \<open>PriceChart.tsx (the replay-aware component)\<close>

subsection \<open>Data\<close>

record Trade =
  trade_id :: nat
  symbol :: string
  market :: "string option"
  side :: string
  price :: real
  quantity :: real
  trade_time :: string

record ReplayClock =
  start_date :: string
  end_date :: string
  current_date :: string
  speed_multiplier :: real
  trading_interval_days :: "real option"
  progress :: "real option"

record ReplayState =
  active :: bool
  state :: "ReplayClock option"

record KlineData =
  timestamp :: int
  datetime :: "string option"
  open_price :: "real option"
  high_price :: "real option"
  low_price :: "real option"
  close_price :: "real option"
  volume :: "real option"

subsection \<open>Replay window read from the props\<close>

text \<open>\<open>replayState?.active ?? false\<close>.\<close>

definition isReplayActive :: "ReplayState option \<Rightarrow> bool" where
  "isReplayActive rs = (case rs of None \<Rightarrow> False | Some r \<Rightarrow> active r)"

text \<open>
  \<open>replayState?.state?.current_date ? new Date(...) : null\<close>: \<open>None\<close> is \<open>null\<close> (no replay
  state, no clock, or an empty string); \<open>Some t\<close> is a Date object whose \<open>getTime()\<close> is
  \<open>t\<close>, \<open>NaN\<close> when the string is not a date. A Date object is truthy even when it is invalid.
\<close>

definition replayDate :: "date_parser \<Rightarrow> (ReplayClock \<Rightarrow> string) \<Rightarrow> ReplayState option \<Rightarrow> jsnum option" where
  "replayDate parse field rs =
     (case rs of None \<Rightarrow> None
      | Some r \<Rightarrow> (case state r of None \<Rightarrow> None
          | Some c \<Rightarrow> if field c = [] then None else Some (getTime (parse (field c)))))"

definition replayCurrentDate :: "date_parser \<Rightarrow> ReplayState option \<Rightarrow> jsnum option" where
  "replayCurrentDate parse rs = replayDate parse current_date rs"

definition replayStartDate :: "date_parser \<Rightarrow> ReplayState option \<Rightarrow> jsnum option" where
  "replayStartDate parse rs = replayDate parse start_date rs"

subsection \<open>symbolTrades\<close>

text \<open>\<open>t.symbol === symbol && (t.market === market || (!t.market && market === 'CRYPTO'))\<close>;
  a missing market and an empty one are both falsy.\<close>

definition symbolMatch :: "string \<Rightarrow> string \<Rightarrow> Trade \<Rightarrow> bool" where
  "symbolMatch smb mkt t =
     (symbol t = smb \<and>
      (market t = Some mkt \<or> ((market t = None \<or> market t = Some []) \<and> mkt = ''CRYPTO'')))"

definition symbolTrades ::
  "date_parser \<Rightarrow> string \<Rightarrow> string \<Rightarrow> ReplayState option \<Rightarrow> Trade list \<Rightarrow> Trade list" where
  "symbolTrades parse smb mkt rs trades =
     filter (\<lambda>t.
       if \<not> symbolMatch smb mkt t then False
       else (case (isReplayActive rs, replayStartDate parse rs, replayCurrentDate parse rs) of
               (True, Some startTime, Some currentTime) \<Rightarrow>
                 js_ge (getTime (parse (trade_time t))) startTime \<and>
                 js_le (getTime (parse (trade_time t))) currentTime
             | _ \<Rightarrow> True)) trades"

subsection \<open>validKlineData\<close>

text \<open>\<open>k.close ?? k.open ?? null\<close>, then \<open>price !== null && !isNaN(price) && price > 0\<close>.\<close>

definition klinePrice :: "KlineData \<Rightarrow> real option" where
  "klinePrice k = (case close_price k of Some c \<Rightarrow> Some c | None \<Rightarrow> open_price k)"

definition isValidPrice :: "KlineData \<Rightarrow> bool" where
  "isValidPrice k = (case klinePrice k of None \<Rightarrow> False | Some p \<Rightarrow> p > 0)"

text \<open>\<open>(k.timestamp || 0) * 1000\<close>: the timestamp, in seconds, as milliseconds.\<close>

definition klineTime :: "KlineData \<Rightarrow> jsnum" where
  "klineTime k = Num ((if timestamp k = 0 then 0 else timestamp k) * 1000)"

text \<open>The time of a candle in the window filter: the \<open>datetime\<close> when there is one (a
  non-empty string), the \<open>timestamp\<close> in seconds times 1000 otherwise.\<close>

definition filterTime :: "date_parser \<Rightarrow> KlineData \<Rightarrow> jsnum" where
  "filterTime parse k =
     (case datetime k of
        Some d \<Rightarrow> if d = [] then klineTime k else getTime (parse d)
      | None \<Rightarrow> klineTime k)"

text \<open>\<open>30 * 24 * 60 * 60 * 1000\<close>: the thirty days of context before the start.\<close>

definition lookbackMs :: int where
  "lookbackMs = 30 * 24 * 60 * 60 * 1000"

fun js_minus_ms :: "jsnum \<Rightarrow> int \<Rightarrow> jsnum" where
  "js_minus_ms (Num a) d = Num (a - d)"
| "js_minus_ms x d = x"

definition validKlineData ::
  "date_parser \<Rightarrow> ReplayState option \<Rightarrow> KlineData list \<Rightarrow> KlineData list" where
  "validKlineData parse rs klineData =
     filter (\<lambda>k.
       if \<not> isValidPrice k then False
       else (case (isReplayActive rs, replayCurrentDate parse rs, replayStartDate parse rs) of
               (True, Some replayTime, Some startTime) \<Rightarrow>
                 js_le (filterTime parse k) replayTime \<and>
                 js_ge (filterTime parse k) (js_minus_ms startTime lookbackMs)
             | _ \<Rightarrow> True)) klineData"

definition prices :: "KlineData list \<Rightarrow> real list" where
  "prices vk = map (\<lambda>k. case klinePrice k of Some p \<Rightarrow> p | None \<Rightarrow> 0) vk"

subsection \<open>The closest candle of a trade\<close>

text \<open>
  The marker loop reads \<open>(k.timestamp || 0) * 1000\<close> only, never the \<open>datetime\<close>.
  The inner \<open>forEach\<close>: the state is \<open>(closestIndex, minDiff)\<close>, \<open>idx\<close> the index of the head
  of the remaining candles.
\<close>

fun closestLoop :: "jsnum \<Rightarrow> KlineData list \<Rightarrow> nat \<Rightarrow> nat \<times> jsnum \<Rightarrow> nat \<times> jsnum" where
  "closestLoop tradeTime [] idx acc = acc"
| "closestLoop tradeTime (k # ks) idx (closest, minDiff) =
     (let diff = js_abs_diff tradeTime (klineTime k)
      in if js_lt diff minDiff then closestLoop tradeTime ks (Suc idx) (idx, diff)
         else closestLoop tradeTime ks (Suc idx) (closest, minDiff))"

definition closestIndex :: "jsnum \<Rightarrow> KlineData list \<Rightarrow> nat" where
  "closestIndex tradeTime vk = fst (closestLoop tradeTime vk 0 (0, Infinity))"

text \<open>The distance in milliseconds between an instant and a candle's timestamp, which is
  in seconds.\<close>

definition msDistance :: "int \<Rightarrow> KlineData \<Rightarrow> int" where
  "msDistance t k = \<bar>t - timestamp k * 1000\<bar>"

text \<open>Whether a finite distance is below the running minimum.\<close>

fun belowMin :: "int \<Rightarrow> jsnum \<Rightarrow> bool" where
  "belowMin d (Num m) = (d < m)"
| "belowMin d Infinity = True"
| "belowMin d NaN = False"

subsection \<open>Markers and the two marker channels\<close>

text \<open>A marker is \<open>{x: closestIndex, y: trade.price, label}\<close>; the label is display text
  built with \<open>toFixed\<close> and is left out.\<close>

record Marker =
  marker_x :: nat
  marker_y :: real

definition isBuySide :: "string \<Rightarrow> bool" where
  "isBuySide s = (s = ''BUY'' \<or> s = ''LONG'')"

definition isSellSide :: "string \<Rightarrow> bool" where
  "isSellSide s = (s = ''SELL'' \<or> s = ''SHORT'')"

definition markerOf :: "date_parser \<Rightarrow> KlineData list \<Rightarrow> Trade \<Rightarrow> Marker" where
  "markerOf parse vk t =
     \<lparr>marker_x = closestIndex (getTime (parse (trade_time t))) vk, marker_y = price t\<rparr>"

text \<open>The outer \<open>forEach\<close>: the state is \<open>(buyMarkers, sellMarkers)\<close>, each pushed at its end.\<close>

fun markersLoop ::
  "date_parser \<Rightarrow> KlineData list \<Rightarrow> Trade list \<Rightarrow> Marker list \<times> Marker list \<Rightarrow> Marker list \<times> Marker list" where
  "markersLoop parse vk [] acc = acc"
| "markersLoop parse vk (t # ts) (buys, sells) =
     (if side t = ''BUY'' \<or> side t = ''LONG'' then
        markersLoop parse vk ts (buys @ [markerOf parse vk t], sells)
      else if side t = ''SELL'' \<or> side t = ''SHORT'' then
        markersLoop parse vk ts (buys, sells @ [markerOf parse vk t])
      else markersLoop parse vk ts (buys, sells))"

definition buyMarkers :: "date_parser \<Rightarrow> KlineData list \<Rightarrow> Trade list \<Rightarrow> Marker list" where
  "buyMarkers parse vk ts = fst (markersLoop parse vk ts ([], []))"

definition sellMarkers :: "date_parser \<Rightarrow> KlineData list \<Rightarrow> Trade list \<Rightarrow> Marker list" where
  "sellMarkers parse vk ts = snd (markersLoop parse vk ts ([], []))"

text \<open>\<open>markers.forEach(m => if (m.x >= 0 && m.x < data.length) data[m.x] = m.y)\<close>;
  \<open>None\<close> is the \<open>null\<close> the array is filled with.\<close>

fun writeMarkers :: "Marker list \<Rightarrow> real option list \<Rightarrow> real option list" where
  "writeMarkers [] d = d"
| "writeMarkers (m # ms) d =
     writeMarkers ms (if marker_x m < length d then d[marker_x m := Some (marker_y m)] else d)"

definition buyData :: "date_parser \<Rightarrow> KlineData list \<Rightarrow> Trade list \<Rightarrow> real option list" where
  "buyData parse vk ts =
     writeMarkers (buyMarkers parse vk ts) (replicate (length (prices vk)) None)"

definition sellData :: "date_parser \<Rightarrow> KlineData list \<Rightarrow> Trade list \<Rightarrow> real option list" where
  "sellData parse vk ts =
     writeMarkers (sellMarkers parse vk ts) (replicate (length (prices vk)) None)"

text \<open>
  The component from its props and the fetched candles down to the two marker datasets.
  It returns early, drawing no chart, when there are no candles or no valid candle.
\<close>

definition chartMarkers ::
  "date_parser \<Rightarrow> string \<Rightarrow> string \<Rightarrow> ReplayState option \<Rightarrow> Trade list \<Rightarrow> KlineData list
     \<Rightarrow> (real option list \<times> real option list) option" where
  "chartMarkers parse smb mkt rs trades klineData =
     (let st = symbolTrades parse smb mkt rs trades;
          vk = validKlineData parse rs klineData
      in if klineData = [] \<or> vk = [] then None
         else Some (buyData parse vk st, sellData parse vk st))"

text \<open>Example data: a candle with a valid price at a timestamp given in seconds, a trade,
  and a date parser given by a finite table (any string outside the table is not a date).\<close>

definition candleAt :: "int \<Rightarrow> KlineData" where
  "candleAt ts = \<lparr>timestamp = ts, datetime = None, open_price = None, high_price = None,
     low_price = None, close_price = Some 1, volume = None\<rparr>"

definition tradeAt :: "nat \<Rightarrow> string \<Rightarrow> real \<Rightarrow> string \<Rightarrow> Trade" where
  "tradeAt n sd p tm = \<lparr>trade_id = n, symbol = ''BTC'', market = Some ''CRYPTO'', side = sd,
     price = p, quantity = 1, trade_time = tm\<rparr>"

definition tableParse :: "(string \<times> int) list \<Rightarrow> date_parser" where
  "tableParse tbl s = map_of tbl s"

definition secondsParse :: date_parser where
  "secondsParse = tableParse [(''T+99s'', 99000), (''T+100s'', 100000), (''T+180s'', 180000),
     (''T+190s'', 190000), (''T+250s'', 250000), (''T+260s'', 260000), (''T+300s'', 300000)]"

definition replayClock :: "string \<Rightarrow> string \<Rightarrow> string \<Rightarrow> real \<Rightarrow> real option \<Rightarrow> ReplayState" where
  "replayClock s e c sp d = \<lparr>active = True, state = Some \<lparr>start_date = s, end_date = e,
     current_date = c, speed_multiplier = sp, trading_interval_days = d, progress = None\<rparr>\<rparr>"

section \<open>ComprehensiveView.tsx\<close>

subsection \<open>The component's state and what it does to the outside\<close>

datatype Effect =
    CallGetReplayState
  | CallStartReplay string string real "real option"
  | CallStopReplay
  | CallAdvanceReplay real
  | OnRefreshData
  | SetTimeout nat
  | ToastError string
  | ToastSuccess string
  | ConsoleError string

text \<open>
  The \<open>useState\<close> values, the two \<open>useRef\<close> cells of the polling effect and its \<open>cancelled\<close>
  flag. \<open>pollTimeoutRef\<close> is the armed timeout with its delay in milliseconds, \<open>None\<close> when
  no timeout is armed. \<open>outstanding\<close> counts the \<open>getReplayState\<close> calls that \<open>runFetch\<close>
  has issued and that have not settled; \<open>log\<close> records the calls made to the outside.
\<close>

record View =
  replayState :: "ReplayState option"
  startDate :: string
  endDate :: string
  speedMultiplier :: real
  tradingIntervalDays :: real
  loading :: bool
  showReplayControls :: bool
  pollTimeoutRef :: "nat option"
  inFlightRef :: bool
  cancelled :: bool
  outstanding :: nat
  log :: "Effect list"

definition emit :: "Effect list \<Rightarrow> View \<Rightarrow> View" where
  "emit es v = v\<lparr>log := log v @ es\<rparr>"

datatype fetch_result = Fulfilled ReplayState | Rejected

subsection \<open>Polling the replay state\<close>

definition CONFIG_normalMs :: nat where
  "CONFIG_normalMs = 10000"

definition CONFIG_backoffMs :: nat where
  "CONFIG_backoffMs = 30000"

definition scheduleNext :: "nat \<Rightarrow> View \<Rightarrow> View" where
  "scheduleNext delayMs v =
     (if cancelled v then v else emit [SetTimeout delayMs] (v\<lparr>pollTimeoutRef := Some delayMs\<rparr>))"

text \<open>\<open>runFetch\<close> up to its \<open>await\<close>: the guard, the flag, the network call.\<close>

definition runFetch :: "View \<Rightarrow> View" where
  "runFetch v =
     (if cancelled v \<or> inFlightRef v then v
      else emit [CallGetReplayState] (v\<lparr>inFlightRef := True, outstanding := Suc (outstanding v)\<rparr>))"

text \<open>\<open>runFetch\<close> from the \<open>await\<close> on, when the call has settled: the \<open>try\<close> or the \<open>catch\<close>
  branch, then the \<open>finally\<close>.\<close>

definition runFetch_settled :: "fetch_result \<Rightarrow> View \<Rightarrow> View" where
  "runFetch_settled r v =
     (let v0 = v\<lparr>outstanding := outstanding v - 1\<rparr>;
          v1 = (case r of
                  Fulfilled st \<Rightarrow>
                    if cancelled v0 then v0
                    else scheduleNext CONFIG_normalMs
                           ((if active st then emit [OnRefreshData] else id)
                              (v0\<lparr>replayState := Some st\<rparr>))
                | Rejected \<Rightarrow>
                    if cancelled v0 then v0
                    else scheduleNext CONFIG_backoffMs
                           (emit [ConsoleError ''Failed to fetch replay state:''] v0))
      in v1\<lparr>inFlightRef := False\<rparr>)"

text \<open>The callback of the timeout, and the cleanup of the effect (\<open>clearTimeout\<close> disarms
  the timeout).\<close>

definition pollTimeoutFired :: "View \<Rightarrow> View" where
  "pollTimeoutFired v = runFetch (v\<lparr>pollTimeoutRef := None\<rparr>)"

definition pollCleanup :: "View \<Rightarrow> View" where
  "pollCleanup v = v\<lparr>cancelled := True, pollTimeoutRef := None\<rparr>"

definition initialView :: View where
  "initialView = \<lparr>replayState = None, startDate = [], endDate = [], speedMultiplier = 1,
     tradingIntervalDays = 1, loading = False, showReplayControls = False,
     pollTimeoutRef = None, inFlightRef = False, cancelled = False, outstanding = 0, log = []\<rparr>"

text \<open>The effect runs once, at mount, and calls \<open>runFetch\<close>.\<close>

definition pollMounted :: View where
  "pollMounted = runFetch initialView"

text \<open>
  What can happen to the polling effect afterwards: the armed timeout fires, the
  outstanding call settles, something calls \<open>runFetch\<close> once more, the component unmounts.
  A timeout that is not armed does not fire and a call that was not issued does not
  settle.
\<close>

datatype poll_event = TimeoutFires | FetchSettles fetch_result | RunFetchCalled | Unmounts

fun pollStep :: "View \<Rightarrow> poll_event \<Rightarrow> View" where
  "pollStep v TimeoutFires = (case pollTimeoutRef v of None \<Rightarrow> v | Some d \<Rightarrow> pollTimeoutFired v)"
| "pollStep v (FetchSettles r) = (if outstanding v = 0 then v else runFetch_settled r v)"
| "pollStep v RunFetchCalled = runFetch v"
| "pollStep v Unmounts = pollCleanup v"

definition pollRun :: "poll_event list \<Rightarrow> View" where
  "pollRun es = foldl pollStep pollMounted es"

text \<open>A history of polls that ran to their end: each settles, then the timeout it armed
  fires and issues the next.\<close>

definition pollRounds :: "fetch_result list \<Rightarrow> poll_event list" where
  "pollRounds rs = concat (map (\<lambda>r. [FetchSettles r, TimeoutFires]) rs)"

text \<open>The delays of the \<open>setTimeout\<close> calls in a log, in order.\<close>

fun timeoutsArmed :: "Effect list \<Rightarrow> nat list" where
  "timeoutsArmed [] = []"
| "timeoutsArmed (SetTimeout d # es) = d # timeoutsArmed es"
| "timeoutsArmed (e # es) = timeoutsArmed es"

subsection \<open>Auto-advance\<close>

definition BASE_MS_PER_DAY :: real where
  "BASE_MS_PER_DAY = 2000"

text \<open>The delay handed to \<open>setInterval\<close>; \<open>None\<close> is the non-finite quotient of a division
  by zero.\<close>

definition js_div :: "real \<Rightarrow> real \<Rightarrow> real option" where
  "js_div a b = (if b = 0 then None else Some (a / b))"

record IntervalTimer =
  speedMs :: "real option"
  tradingIntervalSeconds :: real

text \<open>\<open>(currentState as any).trading_interval_days || 1\<close>.\<close>

definition intervalDaysOf :: "ReplayClock \<Rightarrow> real" where
  "intervalDaysOf c = (case trading_interval_days c of None \<Rightarrow> 1 | Some d \<Rightarrow> if d = 0 then 1 else d)"

text \<open>The body of the auto-advance effect: the interval it arms, or none.\<close>

definition autoAdvanceEffect :: "ReplayState option \<Rightarrow> IntervalTimer option" where
  "autoAdvanceEffect rs =
     (case rs of None \<Rightarrow> None
      | Some r \<Rightarrow>
          if \<not> active r then None
          else (case state r of None \<Rightarrow> None
                | Some currentState \<Rightarrow>
                    Some \<lparr>speedMs = js_div (BASE_MS_PER_DAY * intervalDaysOf currentState)
                                         (speed_multiplier currentState),
                          tradingIntervalSeconds = intervalDaysOf currentState * 86400\<rparr>))"

text \<open>The dependency array \<open>[replayState?.active, replayState?.state?.speed_multiplier]\<close>.\<close>

definition autoAdvanceDeps :: "ReplayState option \<Rightarrow> bool option \<times> real option" where
  "autoAdvanceDeps rs =
     (map_option active rs,
      case rs of None \<Rightarrow> None | Some r \<Rightarrow> map_option speed_multiplier (state r))"

text \<open>A render after \<open>replayState\<close> went from \<open>prev\<close> to \<open>next\<close>: when a dependency changed
  the cleanup clears the interval and the effect runs again; otherwise the armed interval
  stays as it is.\<close>

definition autoAdvanceRerender ::
  "ReplayState option \<Rightarrow> ReplayState option \<Rightarrow> IntervalTimer option \<Rightarrow> IntervalTimer option" where
  "autoAdvanceRerender prev next timer =
     (if autoAdvanceDeps next = autoAdvanceDeps prev then timer else autoAdvanceEffect next)"

text \<open>
  The renders of the component after its mount, given as the successive values of
  \<open>replayState\<close>: \<open>prev\<close> is the value at the previous render and \<open>timer\<close> the interval
  that is live. At mount \<open>replayState\<close> is \<open>null\<close> and the effect runs for the first time.
\<close>

fun autoAdvanceRenders ::
  "ReplayState option \<Rightarrow> IntervalTimer option \<Rightarrow> ReplayState option list \<Rightarrow> IntervalTimer option" where
  "autoAdvanceRenders prev timer [] = timer"
| "autoAdvanceRenders prev timer (next # rest) =
     autoAdvanceRenders next (autoAdvanceRerender prev next timer) rest"

definition liveTimer :: "ReplayState option list \<Rightarrow> IntervalTimer option" where
  "liveTimer hist = autoAdvanceRenders None (autoAdvanceEffect None) hist"

text \<open>The value of \<open>replayState\<close> at the latest render whose dependencies differed from
  those before it, which is the render at which the effect last ran; \<open>a\<close> is that value so
  far.\<close>

fun lastArmed :: "ReplayState option \<Rightarrow> ReplayState option list \<Rightarrow> ReplayState option" where
  "lastArmed a [] = a"
| "lastArmed a (next # rest) =
     lastArmed (if autoAdvanceDeps next = autoAdvanceDeps a then a else next) rest"

text \<open>One tick of the interval: \<open>advanceReplay\<close>, then \<open>getReplayState\<close>, then a refresh
  half a second later; a failure of either call is logged and nothing else happens.\<close>

definition autoAdvanceTick :: "IntervalTimer \<Rightarrow> bool \<Rightarrow> fetch_result \<Rightarrow> View \<Rightarrow> View" where
  "autoAdvanceTick timer advanced r v =
     (if \<not> advanced then
        emit [CallAdvanceReplay (tradingIntervalSeconds timer),
              ConsoleError ''Failed to advance replay:''] v
      else (case r of
              Rejected \<Rightarrow>
                emit [CallAdvanceReplay (tradingIntervalSeconds timer), CallGetReplayState,
                      ConsoleError ''Failed to advance replay:''] v
            | Fulfilled newState \<Rightarrow>
                emit [CallAdvanceReplay (tradingIntervalSeconds timer), CallGetReplayState,
                      SetTimeout 500]
                  (v\<lparr>replayState := Some newState\<rparr>)))"

text \<open>The auto-advance effect of the earlier revision of the component
  (\<open>speedMs = (tradingIntervalSeconds / speed_multiplier) * 1000\<close>), kept for comparison.\<close>

definition autoAdvanceEffect_earlier :: "ReplayState option \<Rightarrow> IntervalTimer option" where
  "autoAdvanceEffect_earlier rs =
     (case rs of None \<Rightarrow> None
      | Some r \<Rightarrow>
          if \<not> active r then None
          else (case state r of None \<Rightarrow> None
                | Some currentState \<Rightarrow>
                    Some \<lparr>speedMs = map_option (\<lambda>q. q * 1000)
                              (js_div (intervalDaysOf currentState * 86400)
                                      (speed_multiplier currentState)),
                          tradingIntervalSeconds = intervalDaysOf currentState * 86400\<rparr>))"

subsection \<open>handleStart\<close>

text \<open>\<open>new Date(a) >= new Date(b)\<close> compares the two times as numbers.\<close>

definition startNotBeforeEnd :: "date_parser \<Rightarrow> string \<Rightarrow> string \<Rightarrow> bool" where
  "startNotBeforeEnd parse a b = js_ge (getTime (parse a)) (getTime (parse b))"

text \<open>\<open>handleStart\<close> up to its first \<open>await\<close>: the two validations, each ending in a toast
  and a \<open>return\<close>, then \<open>setLoading(true)\<close> and the call of \<open>startReplay\<close>.\<close>

definition handleStart :: "date_parser \<Rightarrow> View \<Rightarrow> View" where
  "handleStart parse v =
     (if startDate v = [] \<or> endDate v = [] then
        emit [ToastError ''Please select start and end dates''] v
      else if startNotBeforeEnd parse (startDate v) (endDate v) then
        emit [ToastError ''Start date must be before end date''] v
      else
        emit [CallStartReplay (startDate v @ ''T00:00:00Z'') (endDate v @ ''T23:59:59Z'')
                (speedMultiplier v) (Some (tradingIntervalDays v))]
          (v\<lparr>loading := True\<rparr>))"

text \<open>What \<open>startReplay\<close> answered: \<open>{success: true}\<close>, \<open>{success: false, message?}\<close>, or a
  rejection with an error, of which the \<open>catch\<close> reads \<open>message\<close>, \<open>data?.detail\<close> and
  \<open>data?.message\<close>.\<close>

record StartError =
  err_message :: "string option"
  err_data_detail :: "string option"
  err_data_message :: "string option"

datatype start_response = StartSucceeded | StartRefused "string option" | StartThrew StartError

text \<open>\<open>m || dflt\<close> on a string that may be missing or empty.\<close>

definition messageOr :: "string option \<Rightarrow> string \<Rightarrow> string" where
  "messageOr m dflt = (case m of None \<Rightarrow> dflt | Some t \<Rightarrow> if t = [] then dflt else t)"

text \<open>\<open>err.message || err.data?.detail || err.data?.message || 'Failed to start replay mode'\<close>.\<close>

definition startErrorMessage :: "StartError \<Rightarrow> string" where
  "startErrorMessage err =
     messageOr (err_message err)
       (messageOr (err_data_detail err)
          (messageOr (err_data_message err) ''Failed to start replay mode''))"

text \<open>
  \<open>handleStart\<close> from the \<open>await\<close> on. An answer without success is thrown as an
  \<open>Error\<close> whose message is \<open>response.message || 'Failed to start replay mode'\<close> and is
  caught like a rejection: \<open>console.error\<close>, then the toast. The \<open>finally\<close> ends the
  loading state. The \<open>console.log\<close> lines are not recorded.
\<close>

definition handleStart_settled :: "start_response \<Rightarrow> View \<Rightarrow> View" where
  "handleStart_settled resp v =
     (let v1 = (case resp of
                  StartSucceeded \<Rightarrow> emit [ToastSuccess ''Replay mode started'', SetTimeout 500] v
                | StartRefused m \<Rightarrow>
                    emit [ConsoleError ''Failed to start replay:'',
                          ToastError (''Failed to start replay: '' @
                            startErrorMessage
                              \<lparr>err_message = Some (messageOr m ''Failed to start replay mode''),
                               err_data_detail = None, err_data_message = None\<rparr>)] v
                | StartThrew err \<Rightarrow>
                    emit [ConsoleError ''Failed to start replay:'',
                          ToastError (''Failed to start replay: '' @ startErrorMessage err)] v)
      in v1\<lparr>loading := False\<rparr>)"

text \<open>The callback armed after a successful start.\<close>

definition handleStart_delayed :: "fetch_result \<Rightarrow> View \<Rightarrow> View" where
  "handleStart_delayed r v =
     (case r of
        Fulfilled st \<Rightarrow>
          emit [CallGetReplayState, OnRefreshData]
            (v\<lparr>replayState := Some st, showReplayControls := False\<rparr>)
      | Rejected \<Rightarrow> emit [CallGetReplayState, ConsoleError ''Failed to fetch replay state:''] v)"

text \<open>Whether a log holds a call over the network.\<close>

fun isNetworkCall :: "Effect \<Rightarrow> bool" where
  "isNetworkCall CallGetReplayState = True"
| "isNetworkCall (CallStartReplay a b c d) = True"
| "isNetworkCall CallStopReplay = True"
| "isNetworkCall (CallAdvanceReplay x) = True"
| "isNetworkCall e = False"

section \<open>ReplayModeDialog\<close>

record Dialog =
  dlg_replayState :: "ReplayState option"
  dlg_startDate :: string
  dlg_endDate :: string
  dlg_speedMultiplier :: real
  dlg_loading :: bool
  dlg_log :: "Effect list"

definition dlg_emit :: "Effect list \<Rightarrow> Dialog \<Rightarrow> Dialog" where
  "dlg_emit es d = d\<lparr>dlg_log := dlg_log d @ es\<rparr>"

text \<open>
  The dialog's \<open>handleStart\<close> up to its first \<open>await\<close>. \<open>toISOString\<close> is the platform's
  and is a parameter; on an invalid date it throws, which the \<open>catch\<close> turns into a toast
  and the \<open>finally\<close> into \<open>setLoading(false)\<close>.
\<close>

definition dlg_handleStart :: "date_parser \<Rightarrow> (int \<Rightarrow> string) \<Rightarrow> Dialog \<Rightarrow> Dialog" where
  "dlg_handleStart parse toISOString d =
     (if dlg_startDate d = [] \<or> dlg_endDate d = [] then
        dlg_emit [ToastError ''Please select start and end dates''] d
      else if startNotBeforeEnd parse (dlg_startDate d) (dlg_endDate d) then
        dlg_emit [ToastError ''Start date must be before end date''] d
      else (case (parse (dlg_startDate d), parse (dlg_endDate d)) of
              (Some a, Some b) \<Rightarrow>
                dlg_emit [CallStartReplay (toISOString a) (toISOString b) (dlg_speedMultiplier d) None]
                  (d\<lparr>dlg_loading := True\<rparr>)
            | _ \<Rightarrow> dlg_emit [ToastError ''Invalid time value''] (d\<lparr>dlg_loading := False\<rparr>)))"

section \<open>The application shell: the WebSocket and the snapshot state\<close>

subsection \<open>State\<close>

text \<open>
  The payloads (users, accounts, overviews, positions, orders, trades, decisions, curves)
  are opaque here: \<open>'a\<close>. A field a message may leave out is an option, and so is a state
  cell that \<open>setOverview(undefined)\<close> or \<open>setPositions(undefined)\<close> can empty.
  Sockets are numbered; \<open>scheduled\<close> lists the timeouts armed by \<open>setTimeout\<close>, each with
  its delay in milliseconds.
\<close>

datatype WsOut = Bootstrap | GetSnapshot

datatype TimerAction = ConnectWebSocket

datatype Toast = ToastOk string | ToastPlain string | ToastErr string

record 'a App =
  user :: "'a option"
  account :: "'a option"
  overview :: "'a option"
  positions :: "'a list option"
  orders :: "'a list option"
  trades :: "'a list"
  aiDecisions :: "'a list"
  allAssetCurves :: "'a list"
  wsConnected :: bool
  wsError :: "string option"
  WS_SINGLETON :: "nat option"
  wsRef :: "nat option"
  reconnectTimer :: "nat option"
  scheduled :: "(nat \<times> TimerAction) list"
  sent :: "WsOut list"
  toasts :: "Toast list"
  accountRefreshes :: nat

subsection \<open>Inbound messages\<close>

datatype snapshot_kind = snapshot | snapshot_full | snapshot_fast

record 'a SnapshotMsg =
  msg_overview :: "'a option"
  msg_positions :: "'a list option"
  msg_orders :: "'a list option"
  msg_trades :: "'a list option"
  msg_ai_decisions :: "'a list option"
  msg_all_asset_curves :: "'a list option"

datatype 'a WsMessage =
    BootstrapOk "'a option" "'a option"
  | Snapshot snapshot_kind "'a SnapshotMsg"
  | TradesOnly "'a list option"
  | OrderFilled
  | OrderPending
  | UserSwitched 'a string
  | AccountSwitched 'a string
  | ErrorMessage "string option"
  | OtherMessage

text \<open>\<open>xs || []\<close> on a field that is an array or missing.\<close>

definition orEmpty :: "'a list option \<Rightarrow> 'a list" where
  "orEmpty xs = (case xs of None \<Rightarrow> [] | Some l \<Rightarrow> l)"

text \<open>The snapshot branch of \<open>handleMessage\<close>: five unconditional setters, and the curves
  only when the message carries them.\<close>

definition applySnapshot :: "'a SnapshotMsg \<Rightarrow> 'a App \<Rightarrow> 'a App" where
  "applySnapshot msg s =
     (let s1 = s\<lparr>overview := msg_overview msg,
                  positions := msg_positions msg,
                  orders := msg_orders msg,
                  trades := orEmpty (msg_trades msg),
                  aiDecisions := orEmpty (msg_ai_decisions msg)\<rparr>
      in case msg_all_asset_curves msg of
           None \<Rightarrow> s1
         | Some curves \<Rightarrow> s1\<lparr>allAssetCurves := curves\<rparr>)"

definition noAccountText :: string where
  "noAccountText = ''No account found. Please create an account in Settings.''"

fun handleMessage :: "'a WsMessage \<Rightarrow> 'a App \<Rightarrow> 'a App" where
  "handleMessage (BootstrapOk u a) s =
     (let s1 = (case u of None \<Rightarrow> s | Some usr \<Rightarrow> s\<lparr>user := Some usr\<rparr>);
          s2 = (case a of
                  Some acc \<Rightarrow> s1\<lparr>account := Some acc\<rparr>
                | None \<Rightarrow> s1\<lparr>wsError := Some noAccountText, account := None\<rparr>);
          s3 = s2\<lparr>accountRefreshes := Suc (accountRefreshes s2)\<rparr>
      in case a of Some acc \<Rightarrow> s3\<lparr>sent := sent s3 @ [GetSnapshot]\<rparr> | None \<Rightarrow> s3)"
| "handleMessage (Snapshot kind msg) s = applySnapshot msg s"
| "handleMessage (TradesOnly ts) s = s\<lparr>trades := orEmpty ts\<rparr>"
| "handleMessage OrderFilled s =
     s\<lparr>toasts := toasts s @ [ToastOk ''Order filled''], sent := sent s @ [GetSnapshot]\<rparr>"
| "handleMessage OrderPending s =
     s\<lparr>toasts := toasts s @ [ToastPlain ''Order placed, waiting for fill''],
       sent := sent s @ [GetSnapshot]\<rparr>"
| "handleMessage (UserSwitched u name) s =
     s\<lparr>toasts := toasts s @ [ToastOk (''Switched to '' @ name)], user := Some u\<rparr>"
| "handleMessage (AccountSwitched a name) s =
     s\<lparr>toasts := toasts s @ [ToastOk (''Switched to '' @ name)], account := Some a,
       accountRefreshes := Suc (accountRefreshes s)\<rparr>"
| "handleMessage (ErrorMessage m) s =
     (case m of
        None \<Rightarrow> s\<lparr>toasts := toasts s @ [ToastErr ''Order error'']\<rparr>
      | Some t \<Rightarrow>
          if t \<noteq> [] \<and> sublist ''No account found'' t then s\<lparr>wsError := Some noAccountText\<rparr>
          else s\<lparr>toasts := toasts s @ [ToastErr (messageOr (Some t) ''Order error'')]\<rparr>)"
| "handleMessage OtherMessage s = s"

subsection \<open>Connecting, opening, closing\<close>

text \<open>\<open>connectWebSocket\<close>: \<open>None\<close> when the constructor throws (the \<open>catch\<close> arms a retry
  five seconds later), \<open>Some ws\<close> the new socket otherwise.\<close>

definition connectWebSocket :: "nat option \<Rightarrow> 'a App \<Rightarrow> 'a App" where
  "connectWebSocket created s =
     (case created of
        None \<Rightarrow> s\<lparr>reconnectTimer := Some (length (scheduled s)),
                   scheduled := scheduled s @ [(5000, ConnectWebSocket)]\<rparr>
      | Some ws \<Rightarrow> s\<lparr>WS_SINGLETON := Some ws, wsRef := Some ws\<rparr>)"

definition handleOpen :: "'a App \<Rightarrow> 'a App" where
  "handleOpen s = s\<lparr>wsConnected := True, wsError := None, sent := sent s @ [Bootstrap]\<rparr>"

text \<open>\<open>handleClose\<close> of the socket \<open>ws\<close>, for a close event with the given code.\<close>

definition handleClose :: "nat \<Rightarrow> nat \<Rightarrow> 'a App \<Rightarrow> 'a App" where
  "handleClose ws code s =
     (let s1 = s\<lparr>wsConnected := False, WS_SINGLETON := None,
                  wsRef := (if wsRef s = Some ws then None else wsRef s)\<rparr>
      in if code \<noteq> 1000 \<and> code \<noteq> 1001 then
           s1\<lparr>reconnectTimer := Some (length (scheduled s1)),
              scheduled := scheduled s1 @ [(3000, ConnectWebSocket)]\<rparr>
         else s1)"

text \<open>A sequence of close events, each of a socket with a code.\<close>

definition handleCloses :: "(nat \<times> nat) list \<Rightarrow> 'a App \<Rightarrow> 'a App" where
  "handleCloses evs s = foldl (\<lambda>s (ws, code). handleClose ws code s) s evs"

definition initialApp :: "nat App" where
  "initialApp = \<lparr>user = None, account = None, overview = None, positions = Some [],
     orders = Some [], trades = [], aiDecisions = [], allAssetCurves = [],
     wsConnected = False, wsError = None, WS_SINGLETON = None, wsRef = None,
     reconnectTimer = None, scheduled = [], sent = [], toasts = [], accountRefreshes = 0\<rparr>"

section \<open>Auxiliary notions for the proofs\<close>

text \<open>The guard's invariant: a call is outstanding exactly while the flag is set.\<close>

definition pollInv :: "View \<Rightarrow> bool" where
  "pollInv v = (outstanding v = (if inFlightRef v then 1 else 0))"

text \<open>A mounted view with its poll in flight and no timeout armed.\<close>

definition pollBusy :: "View \<Rightarrow> bool" where
  "pollBusy v = (\<not> cancelled v \<and> inFlightRef v \<and> outstanding v = 1 \<and> pollTimeoutRef v = None)"

text \<open>Example data: a snapshot message that leaves out trades, decisions and curves, and
  an application state in which all three are known.\<close>

definition partialSnapshot :: "nat SnapshotMsg" where
  "partialSnapshot = \<lparr>msg_overview = Some 1, msg_positions = Some [2], msg_orders = Some [],
     msg_trades = None, msg_ai_decisions = None, msg_all_asset_curves = None\<rparr>"

definition knownApp :: "nat App" where
  "knownApp = initialApp\<lparr>trades := [7], aiDecisions := [8], allAssetCurves := [9]\<rparr>"

section \<open>Properties of the price chart\<close>

subsection \<open>The closest candle\<close>

lemma diff_msDistance: "js_abs_diff (Num t) (klineTime k) = Num (msDistance t k)"
  by (simp add: klineTime_def msDistance_def)

lemma js_lt_belowMin: "js_lt (Num d) md = belowMin d md"
  by (cases md) auto

lemma belowMin_smaller: "d' < d \<Longrightarrow> belowMin d md \<Longrightarrow> belowMin d' md"
  by (cases md) auto

lemma belowMin_between: "belowMin d' md \<Longrightarrow> \<not> belowMin d md \<Longrightarrow> md \<noteq> NaN \<Longrightarrow> d' < d"
  by (cases md) auto

text \<open>
  The loop invariant, as a statement about the whole loop: either no remaining candle is
  below the running minimum and the state is unchanged, or the state ends at the first
  remaining candle of least distance, which is below the minimum that was running.
\<close>

lemma closestLoop_result:
  "md \<noteq> NaN \<Longrightarrow>
   (closestLoop (Num t) ks idx (c, md) = (c, md) \<and> (\<forall>k \<in> set ks. \<not> belowMin (msDistance t k) md))
   \<or> (\<exists>j < length ks. closestLoop (Num t) ks idx (c, md) = (idx + j, Num (msDistance t (ks ! j)))
        \<and> belowMin (msDistance t (ks ! j)) md
        \<and> (\<forall>i < j. msDistance t (ks ! j) < msDistance t (ks ! i))
        \<and> (\<forall>i < length ks. msDistance t (ks ! j) \<le> msDistance t (ks ! i)))"
proof (induction ks arbitrary: idx c md)
  case Nil
  then show ?case by simp
next
  case (Cons k ks)
  show ?case
  proof (cases "belowMin (msDistance t k) md")
    case True
    have step: "closestLoop (Num t) (k # ks) idx (c, md)
        = closestLoop (Num t) ks (Suc idx) (idx, Num (msDistance t k))"
      using True by (simp add: diff_msDistance js_lt_belowMin)
    from Cons.IH[of "Num (msDistance t k)" "Suc idx" idx]
    consider (keep) "closestLoop (Num t) ks (Suc idx) (idx, Num (msDistance t k)) = (idx, Num (msDistance t k))"
        "\<forall>k' \<in> set ks. \<not> msDistance t k' < msDistance t k"
      | (move) j where "j < length ks"
        "closestLoop (Num t) ks (Suc idx) (idx, Num (msDistance t k))
           = (Suc idx + j, Num (msDistance t (ks ! j)))"
        "msDistance t (ks ! j) < msDistance t k"
        "\<forall>i < j. msDistance t (ks ! j) < msDistance t (ks ! i)"
        "\<forall>i < length ks. msDistance t (ks ! j) \<le> msDistance t (ks ! i)"
      by auto
    then show ?thesis
    proof cases
      case keep
      have "\<forall>i < length (k # ks). msDistance t ((k # ks) ! 0) \<le> msDistance t ((k # ks) ! i)"
        using keep(2) by (auto simp: nth_Cons not_less split: nat.splits)
      then show ?thesis
        using keep(1) step True by (intro disjI2 exI[of _ 0]) auto
    next
      case move
      have a: "\<forall>i < Suc j. msDistance t ((k # ks) ! Suc j) < msDistance t ((k # ks) ! i)"
        using move(3,4) by (auto simp: nth_Cons split: nat.splits)
      have b: "\<forall>i < length (k # ks). msDistance t ((k # ks) ! Suc j) \<le> msDistance t ((k # ks) ! i)"
        using move(3,5) by (auto simp: nth_Cons split: nat.splits)
      have c: "belowMin (msDistance t ((k # ks) ! Suc j)) md"
        using belowMin_smaller[OF move(3) True] by simp
      show ?thesis
        using a b c move(1,2) step by (intro disjI2 exI[of _ "Suc j"]) auto
    qed
  next
    case False
    have step: "closestLoop (Num t) (k # ks) idx (c, md) = closestLoop (Num t) ks (Suc idx) (c, md)"
      using False by (simp add: diff_msDistance js_lt_belowMin)
    from Cons.IH[OF Cons.prems, of "Suc idx" c]
    consider (keep) "closestLoop (Num t) ks (Suc idx) (c, md) = (c, md)"
        "\<forall>k' \<in> set ks. \<not> belowMin (msDistance t k') md"
      | (move) j where "j < length ks"
        "closestLoop (Num t) ks (Suc idx) (c, md) = (Suc idx + j, Num (msDistance t (ks ! j)))"
        "belowMin (msDistance t (ks ! j)) md"
        "\<forall>i < j. msDistance t (ks ! j) < msDistance t (ks ! i)"
        "\<forall>i < length ks. msDistance t (ks ! j) \<le> msDistance t (ks ! i)"
      by auto
    then show ?thesis
    proof cases
      case keep
      then show ?thesis using step False by auto
    next
      case move
      have lt: "msDistance t (ks ! j) < msDistance t k"
        using belowMin_between[OF move(3) False Cons.prems] .
      have a: "\<forall>i < Suc j. msDistance t ((k # ks) ! Suc j) < msDistance t ((k # ks) ! i)"
        using lt move(4) by (auto simp: nth_Cons split: nat.splits)
      have b: "\<forall>i < length (k # ks). msDistance t ((k # ks) ! Suc j) \<le> msDistance t ((k # ks) ! i)"
        using lt move(5) by (auto simp: nth_Cons split: nat.splits)
      show ?thesis
        using a b move(1,2,3) step by (intro disjI2 exI[of _ "Suc j"]) auto
    qed
  qed
qed

lemma closestIndex_least:
  assumes "vk \<noteq> []"
  shows "closestIndex (Num t) vk < length vk
     \<and> (\<forall>i < length vk. msDistance t (vk ! closestIndex (Num t) vk) \<le> msDistance t (vk ! i))
     \<and> (\<forall>i < closestIndex (Num t) vk.
           msDistance t (vk ! closestIndex (Num t) vk) < msDistance t (vk ! i))"
proof -
  from closestLoop_result[of Infinity t vk 0 0]
  consider "\<forall>k \<in> set vk. \<not> belowMin (msDistance t k) Infinity"
    | j where "j < length vk"
        "closestLoop (Num t) vk 0 (0, Infinity) = (j, Num (msDistance t (vk ! j)))"
        "\<forall>i < j. msDistance t (vk ! j) < msDistance t (vk ! i)"
        "\<forall>i < length vk. msDistance t (vk ! j) \<le> msDistance t (vk ! i)"
    by auto
  then show ?thesis
  proof cases
    case 1
    with assms show ?thesis by (cases vk) auto
  next
    case 2
    then show ?thesis by (simp add: closestIndex_def)
  qed
qed

text \<open>A trade whose time is not a date keeps the initial index: no comparison with \<open>NaN\<close>
  succeeds.\<close>

lemma closestLoop_NaN: "closestLoop NaN ks idx acc = acc"
  by (induction ks arbitrary: idx acc) (auto simp: Let_def)

lemma closestIndex_NaN: "closestIndex NaN vk = 0"
  by (simp add: closestIndex_def closestLoop_NaN)

lemma closestIndex_example:
  "closestIndex (Num (180 * 1000)) [candleAt 100, candleAt 200, candleAt 300] = 1"
  by (simp add: closestIndex_def candleAt_def klineTime_def)

text \<open>
  C4. For a non-empty series and a trade time \<open>t\<close> (milliseconds), the index found is in
  range, its candle is at least as close in time to \<open>t\<close> as every candle of the series, and
  strictly closer than every candle before it: it is the first index of least distance
  between the trade time and the candle's timestamp, both taken in milliseconds (the
  timestamp is in seconds, so it is multiplied by 1000). For candles at 100, 200 and 300
  seconds and a trade at 180 seconds the index is 1.
\<close>

theorem closestIndex_nearest_first:
  assumes "vk \<noteq> []"
  shows "closestIndex (Num t) vk < length vk
     \<and> (\<forall>i < length vk. \<bar>t - timestamp (vk ! closestIndex (Num t) vk) * 1000\<bar>
                          \<le> \<bar>t - timestamp (vk ! i) * 1000\<bar>)
     \<and> (\<forall>i < closestIndex (Num t) vk.
           \<bar>t - timestamp (vk ! closestIndex (Num t) vk) * 1000\<bar> < \<bar>t - timestamp (vk ! i) * 1000\<bar>)
     \<and> closestIndex (Num (180 * 1000)) [candleAt 100, candleAt 200, candleAt 300] = 1"
  using closestIndex_least[OF assms, of t] closestIndex_example
  unfolding msDistance_def by blast

theorem closestIndex_nearest_first_witness:
  "[candleAt 100, candleAt 200, candleAt 300] \<noteq> []
   \<and> closestIndex (Num 250000) [candleAt 100, candleAt 200, candleAt 300] = 1
   \<and> closestIndex (Num 250000) [candleAt 100, candleAt 200, candleAt 300]
       < length [candleAt 100, candleAt 200, candleAt 300]
   \<and> \<bar>250000 - timestamp ([candleAt 100, candleAt 200, candleAt 300] !
          closestIndex (Num 250000) [candleAt 100, candleAt 200, candleAt 300]) * 1000\<bar>
       \<le> \<bar>250000 - timestamp ([candleAt 100, candleAt 200, candleAt 300] ! 2) * 1000\<bar>"
proof -
  have ne: "[candleAt 100, candleAt 200, candleAt 300] \<noteq> []" by simp
  have ix: "closestIndex (Num 250000) [candleAt 100, candleAt 200, candleAt 300] = 1"
    by (simp add: closestIndex_def candleAt_def klineTime_def)
  show ?thesis
    using ne ix closestIndex_nearest_first[OF ne, of 250000] by (simp add: candleAt_def)
qed

subsection \<open>The two marker channels\<close>

lemma markersLoop_acc:
  "markersLoop parse vk ts (bs, ss) =
     (bs @ map (markerOf parse vk) (filter (\<lambda>t. isBuySide (side t)) ts),
      ss @ map (markerOf parse vk) (filter (\<lambda>t. isSellSide (side t)) ts))"
  by (induction ts arbitrary: bs ss) (auto simp: isBuySide_def isSellSide_def)

lemma buyMarkers_eq:
  "buyMarkers parse vk ts = map (markerOf parse vk) (filter (\<lambda>t. isBuySide (side t)) ts)"
  by (simp add: buyMarkers_def markersLoop_acc)

lemma sellMarkers_eq:
  "sellMarkers parse vk ts = map (markerOf parse vk) (filter (\<lambda>t. isSellSide (side t)) ts)"
  by (simp add: sellMarkers_def markersLoop_acc)

lemma length_writeMarkers: "length (writeMarkers ms d) = length d"
  by (induction ms arbitrary: d) auto

lemma writeMarkers_nth:
  "i < length d \<Longrightarrow>
   writeMarkers ms d ! i =
     (case filter (\<lambda>m. marker_x m = i) ms of
        [] \<Rightarrow> d ! i
      | m # fs \<Rightarrow> Some (marker_y (last (m # fs))))"
proof (induction ms arbitrary: d)
  case Nil
  then show ?case by simp
next
  case (Cons m ms)
  let ?d' = "if marker_x m < length d then d[marker_x m := Some (marker_y m)] else d"
  have len: "i < length ?d'" using Cons.prems by simp
  have "writeMarkers (m # ms) d ! i = writeMarkers ms ?d' ! i" by simp
  also have "\<dots> = (case filter (\<lambda>m. marker_x m = i) ms of [] \<Rightarrow> ?d' ! i
                     | m # fs \<Rightarrow> Some (marker_y (last (m # fs))))"
    using Cons.IH[OF len] .
  also have "\<dots> = (case filter (\<lambda>m. marker_x m = i) (m # ms) of [] \<Rightarrow> d ! i
                     | m # fs \<Rightarrow> Some (marker_y (last (m # fs))))"
    using Cons.prems by (auto split: list.splits)
  finally show ?case .
qed

lemma filter_markers_at:
  "filter (\<lambda>m. marker_x m = i) (map (markerOf parse vk) ts) =
   map (markerOf parse vk) (filter (\<lambda>t. closestIndex (getTime (parse (trade_time t))) vk = i) ts)"
  by (induction ts) (auto simp: markerOf_def)

lemma channel_nth:
  assumes "i < length vk"
  shows "writeMarkers (map (markerOf parse vk) (filter P ts)) (replicate (length (prices vk)) None) ! i =
    (case filter (\<lambda>t. P t \<and> closestIndex (getTime (parse (trade_time t))) vk = i) ts of
       [] \<Rightarrow> None | t # r \<Rightarrow> Some (price (last (t # r))))"
proof -
  have i: "i < length (replicate (length (prices vk)) (None :: real option))"
    using assms by (simp add: prices_def)
  have f: "filter (\<lambda>m. marker_x m = i) (map (markerOf parse vk) (filter P ts)) =
     map (markerOf parse vk) (filter (\<lambda>t. P t \<and> closestIndex (getTime (parse (trade_time t))) vk = i) ts)"
    by (simp add: filter_markers_at conj_commute)
  show ?thesis
    unfolding writeMarkers_nth[OF i] f using assms
    by (cases "filter (\<lambda>t. P t \<and> closestIndex (getTime (parse (trade_time t))) vk = i) ts")
       (simp_all add: prices_def last_map markerOf_def)
qed

text \<open>
  C9. The buy markers are the markers of the trades whose side is BUY or LONG and the sell
  markers those of the trades whose side is SELL or SHORT, each in the order of the
  trades. Both datasets have one cell for each candle. The cell of a candle holds the
  price of the last trade of that channel whose closest candle it is, and is empty when
  there is no such trade: where several trades of one channel meet at one index, the last
  one processed is the one stored.
\<close>

theorem markers_last_write_wins:
  assumes "i < length vk"
  shows "buyMarkers parse vk ts = map (markerOf parse vk) (filter (\<lambda>t. side t = ''BUY'' \<or> side t = ''LONG'') ts)
     \<and> sellMarkers parse vk ts = map (markerOf parse vk) (filter (\<lambda>t. side t = ''SELL'' \<or> side t = ''SHORT'') ts)
     \<and> length (buyData parse vk ts) = length vk \<and> length (sellData parse vk ts) = length vk
     \<and> buyData parse vk ts ! i =
         (case filter (\<lambda>t. (side t = ''BUY'' \<or> side t = ''LONG'')
                            \<and> closestIndex (getTime (parse (trade_time t))) vk = i) ts of
            [] \<Rightarrow> None | t # r \<Rightarrow> Some (price (last (t # r))))
     \<and> sellData parse vk ts ! i =
         (case filter (\<lambda>t. (side t = ''SELL'' \<or> side t = ''SHORT'')
                            \<and> closestIndex (getTime (parse (trade_time t))) vk = i) ts of
            [] \<Rightarrow> None | t # r \<Rightarrow> Some (price (last (t # r))))"
proof -
  have b: "buyMarkers parse vk ts = map (markerOf parse vk) (filter (\<lambda>t. side t = ''BUY'' \<or> side t = ''LONG'') ts)"
    using buyMarkers_eq[of parse vk ts] by (simp add: isBuySide_def)
  have s: "sellMarkers parse vk ts = map (markerOf parse vk) (filter (\<lambda>t. side t = ''SELL'' \<or> side t = ''SHORT'') ts)"
    using sellMarkers_eq[of parse vk ts] by (simp add: isSellSide_def)
  have l: "length (buyData parse vk ts) = length vk" "length (sellData parse vk ts) = length vk"
    by (simp_all add: buyData_def sellData_def length_writeMarkers prices_def)
  have bn: "buyData parse vk ts ! i =
         (case filter (\<lambda>t. (side t = ''BUY'' \<or> side t = ''LONG'')
                            \<and> closestIndex (getTime (parse (trade_time t))) vk = i) ts of
            [] \<Rightarrow> None | t # r \<Rightarrow> Some (price (last (t # r))))"
    unfolding buyData_def b by (rule channel_nth[OF assms])
  have sn: "sellData parse vk ts ! i =
         (case filter (\<lambda>t. (side t = ''SELL'' \<or> side t = ''SHORT'')
                            \<and> closestIndex (getTime (parse (trade_time t))) vk = i) ts of
            [] \<Rightarrow> None | t # r \<Rightarrow> Some (price (last (t # r))))"
    unfolding sellData_def s by (rule channel_nth[OF assms])
  show ?thesis using b s l bn sn by blast
qed

theorem markers_last_write_wins_witness:
  "(1::nat) < length [candleAt 100, candleAt 200, candleAt 300]
   \<and> buyData secondsParse [candleAt 100, candleAt 200, candleAt 300]
        [tradeAt 1 ''BUY'' 10 ''T+180s'', tradeAt 2 ''LONG'' 20 ''T+190s'', tradeAt 3 ''SELL'' 30 ''T+180s'']
       = [None, Some 20, None]
   \<and> sellData secondsParse [candleAt 100, candleAt 200, candleAt 300]
        [tradeAt 1 ''BUY'' 10 ''T+180s'', tradeAt 2 ''LONG'' 20 ''T+190s'', tradeAt 3 ''SELL'' 30 ''T+180s'']
       = [None, Some 30, None]
   \<and> buyData secondsParse [candleAt 100, candleAt 200, candleAt 300]
        [tradeAt 1 ''BUY'' 10 ''T+180s'', tradeAt 2 ''LONG'' 20 ''T+190s'', tradeAt 3 ''SELL'' 30 ''T+180s''] ! 1
       = Some 20"
proof -
  let ?vk = "[candleAt 100, candleAt 200, candleAt 300]"
  let ?ts = "[tradeAt 1 ''BUY'' 10 ''T+180s'', tradeAt 2 ''LONG'' 20 ''T+190s'', tradeAt 3 ''SELL'' 30 ''T+180s'']"
  have i: "(1::nat) < length ?vk" by simp
  have c: "closestIndex (getTime (secondsParse (trade_time (tradeAt n sd p ''T+180s'')))) ?vk = 1"
     "closestIndex (getTime (secondsParse (trade_time (tradeAt n sd p ''T+190s'')))) ?vk = 1" for n sd p
    by (simp_all add: closestIndex_def candleAt_def klineTime_def getTime_def secondsParse_def
        tableParse_def tradeAt_def)
  have sd: "side (tradeAt n sd p tm) = sd" "price (tradeAt n sd p tm) = p" for n sd p tm
    by (simp_all add: tradeAt_def)
  have m: "markerOf secondsParse ?vk (tradeAt n sd p ''T+180s'') = \<lparr>marker_x = 1, marker_y = p\<rparr>"
      "markerOf secondsParse ?vk (tradeAt n sd p ''T+190s'') = \<lparr>marker_x = 1, marker_y = p\<rparr>" for n sd p
    by (simp_all add: markerOf_def c sd)
  have b: "buyData secondsParse ?vk ?ts = [None, Some 20, None]"
    by (simp add: buyData_def buyMarkers_def prices_def sd m)
  have s: "sellData secondsParse ?vk ?ts = [None, Some 30, None]"
    by (simp add: sellData_def sellMarkers_def prices_def sd m)
  from markers_last_write_wins[OF i, of secondsParse ?ts]
  have "buyData secondsParse ?vk ?ts ! 1 =
         (case filter (\<lambda>t. (side t = ''BUY'' \<or> side t = ''LONG'')
                            \<and> closestIndex (getTime (secondsParse (trade_time t))) ?vk = 1) ?ts of
            [] \<Rightarrow> None | t # r \<Rightarrow> Some (price (last (t # r))))"
    by blast
  then have n: "buyData secondsParse ?vk ?ts ! 1 = Some 20"
    by (simp add: sd c)
  show ?thesis using i b s n by blast
qed

subsection \<open>The window filter of the candles\<close>

lemma replayDate_Some:
  "state r = Some c \<Longrightarrow> f c \<noteq> [] \<Longrightarrow> replayDate parse f (Some r) = Some (getTime (parse (f c)))"
  by (simp add: replayDate_def)

lemma js_le_Num_right: "js_le x (Num e) \<longleftrightarrow> (\<exists>tk. x = Num tk \<and> tk \<le> e)"
  by (cases x) auto

lemma js_le_Num_left: "js_le (Num lo) x \<longleftrightarrow> x = Infinity \<or> (\<exists>tk. x = Num tk \<and> lo \<le> tk)"
  by (cases x) auto

lemma js_le_NaN: "\<not> js_le NaN x" "\<not> js_le x NaN"
  by (cases x; simp)+

text \<open>
  C5, as the code has it. While replay is active and its start and current dates are
  dates, the candles kept are exactly those with a valid price (\<open>close ?? open\<close> above
  zero) whose time lies between the start minus thirty days and the current date, in
  their order; the thirty days are a constant of the code. When replay is not active the
  candles kept are exactly those with a valid price.
\<close>

theorem validKlineData_window:
  "(active r \<and> state r = Some c \<and> start_date c \<noteq> [] \<and> current_date c \<noteq> []
      \<and> parse (start_date c) = Some s \<and> parse (current_date c) = Some e \<longrightarrow>
      validKlineData parse (Some r) ks =
        filter (\<lambda>k. isValidPrice k \<and>
                  (\<exists>tk. filterTime parse k = Num tk \<and> s - 2592000000 \<le> tk \<and> tk \<le> e)) ks)
   \<and> (\<not> isReplayActive rs \<longrightarrow> validKlineData parse rs ks = filter isValidPrice ks)"
proof (intro conjI impI)
  assume a: "active r \<and> state r = Some c \<and> start_date c \<noteq> [] \<and> current_date c \<noteq> []
      \<and> parse (start_date c) = Some s \<and> parse (current_date c) = Some e"
  then have w: "isReplayActive (Some r)" "replayCurrentDate parse (Some r) = Some (Num e)"
      "replayStartDate parse (Some r) = Some (Num s)"
    by (simp_all add: isReplayActive_def replayCurrentDate_def replayStartDate_def
        replayDate_Some getTime_def)
  show "validKlineData parse (Some r) ks =
        filter (\<lambda>k. isValidPrice k \<and>
                  (\<exists>tk. filterTime parse k = Num tk \<and> s - 2592000000 \<le> tk \<and> tk \<le> e)) ks"
    unfolding validKlineData_def
    by (rule filter_cong[OF refl])
       (auto simp: w js_ge_def js_le_Num_right js_le_Num_left lookbackMs_def)
next
  assume n: "\<not> isReplayActive rs"
  show "validKlineData parse rs ks = filter isValidPrice ks"
    unfolding validKlineData_def by (rule filter_cong[OF refl]) (simp add: n)
qed

theorem validKlineData_window_witness:
  "validKlineData secondsParse (Some (replayClock ''T+100s'' ''T+300s'' ''T+250s'' 1 None))
      [candleAt 99, candleAt 100, candleAt 250, candleAt 260, (candleAt 200)\<lparr>close_price := Some 0\<rparr>]
     = [candleAt 99, candleAt 100, candleAt 250]
   \<and> validKlineData secondsParse None [candleAt 260, (candleAt 200)\<lparr>close_price := None\<rparr>] = [candleAt 260]"
proof -
  have p: "secondsParse ''T+100s'' = Some 100000" "secondsParse ''T+250s'' = Some 250000"
    by (simp_all add: secondsParse_def tableParse_def)
  have ft: "filterTime secondsParse (candleAt n) = Num (n * 1000)" for n
    by (simp add: filterTime_def candleAt_def klineTime_def)
  have vp: "isValidPrice (candleAt n)" for n
    by (simp add: isValidPrice_def klinePrice_def candleAt_def)
  have nv: "\<not> isValidPrice ((candleAt n)\<lparr>close_price := Some 0\<rparr>)"
     "\<not> isValidPrice ((candleAt n)\<lparr>close_price := None\<rparr>)" for n
    by (simp_all add: isValidPrice_def klinePrice_def candleAt_def)
  have a: "active (replayClock ''T+100s'' ''T+300s'' ''T+250s'' 1 None)"
    by (simp add: replayClock_def)
  have st: "state (replayClock ''T+100s'' ''T+300s'' ''T+250s'' 1 None) =
      Some \<lparr>start_date = ''T+100s'', end_date = ''T+300s'', current_date = ''T+250s'',
        speed_multiplier = 1, trading_interval_days = None, progress = None\<rparr>"
    by (simp add: replayClock_def)
  have na: "\<not> isReplayActive None" by (simp add: isReplayActive_def)
  show ?thesis
    using validKlineData_window[of "replayClock ''T+100s'' ''T+300s'' ''T+250s'' 1 None"
        "\<lparr>start_date = ''T+100s'', end_date = ''T+300s'', current_date = ''T+250s'',
        speed_multiplier = 1, trading_interval_days = None, progress = None\<rparr>"
        secondsParse 100000 250000
        "[candleAt 99, candleAt 100, candleAt 250, candleAt 260, (candleAt 200)\<lparr>close_price := Some 0\<rparr>]" None]
      validKlineData_window[of "replayClock ''T+100s'' ''T+300s'' ''T+250s'' 1 None"
        "\<lparr>start_date = ''T+100s'', end_date = ''T+300s'', current_date = ''T+250s'',
        speed_multiplier = 1, trading_interval_days = None, progress = None\<rparr>"
        secondsParse 100000 250000 "[candleAt 260, (candleAt 200)\<lparr>close_price := None\<rparr>]" None]
    by (simp add: p ft vp nv a st na)
qed

text \<open>
  C5 as the specification words it fails twice. Out of replay a candle whose price is
  not valid is dropped, so the series is not kept whole. In replay with the start at
  100 seconds and the current date at 250 seconds, a candle at 99 seconds is kept: the
  lookback is thirty days, never zero.
\<close>

theorem filterWindow_counterexample:
  "validKlineData secondsParse None [(candleAt 200)\<lparr>close_price := Some 0\<rparr>]
      \<noteq> [(candleAt 200)\<lparr>close_price := Some 0\<rparr>]
   \<and> candleAt 99 \<in> set (validKlineData secondsParse
        (Some (replayClock ''T+100s'' ''T+300s'' ''T+250s'' 1 None)) [candleAt 99])
   \<and> filterTime secondsParse (candleAt 99) = Num 99000
   \<and> replayStartDate secondsParse (Some (replayClock ''T+100s'' ''T+300s'' ''T+250s'' 1 None)) = Some (Num 100000)"
  by (simp add: validKlineData_def isValidPrice_def klinePrice_def candleAt_def isReplayActive_def
      replayCurrentDate_def replayStartDate_def replayDate_def replayClock_def secondsParse_def
      tableParse_def filterTime_def klineTime_def js_ge_def lookbackMs_def getTime_def)

subsection \<open>The window filter of the trades\<close>

lemma between_times:
  "js_ge (getTime x) (getTime lo) \<and> js_le (getTime x) (getTime hi)
     \<longleftrightarrow> (\<exists>a y b. lo = Some a \<and> x = Some y \<and> hi = Some b \<and> a \<le> y \<and> y \<le> b)"
  by (cases x; cases lo; cases hi) (auto simp: js_ge_def getTime_def)

text \<open>
  C10. While replay is active and has a start and a current date, a trade is among the
  trades that are aligned exactly when it matches the symbol and market and its time, the
  start and the current date are all dates with start \<open>\<le>\<close> trade time \<open>\<le>\<close> current. When
  replay is not active the aligned trades are all the trades matching the symbol and
  market. The markers are computed from the aligned trades alone.
\<close>

theorem symbolTrades_window:
  "(active r \<and> state r = Some c \<and> start_date c \<noteq> [] \<and> current_date c \<noteq> [] \<longrightarrow>
      (t \<in> set (symbolTrades parse smb mkt (Some r) ts) \<longleftrightarrow>
         t \<in> set ts \<and> symbolMatch smb mkt t \<and>
         (\<exists>a x b. parse (start_date c) = Some a \<and> parse (trade_time t) = Some x \<and>
                  parse (current_date c) = Some b \<and> a \<le> x \<and> x \<le> b)))
   \<and> (\<not> isReplayActive rs \<longrightarrow> symbolTrades parse smb mkt rs ts = filter (symbolMatch smb mkt) ts)
   \<and> chartMarkers parse smb mkt rs ts kd
       = chartMarkers parse smb mkt rs (symbolTrades parse smb mkt rs ts) kd"
proof (intro conjI impI)
  assume a: "active r \<and> state r = Some c \<and> start_date c \<noteq> [] \<and> current_date c \<noteq> []"
  then have w: "isReplayActive (Some r)"
      "replayCurrentDate parse (Some r) = Some (getTime (parse (current_date c)))"
      "replayStartDate parse (Some r) = Some (getTime (parse (start_date c)))"
    by (simp_all add: isReplayActive_def replayCurrentDate_def replayStartDate_def replayDate_Some)
  show "t \<in> set (symbolTrades parse smb mkt (Some r) ts) \<longleftrightarrow>
         t \<in> set ts \<and> symbolMatch smb mkt t \<and>
         (\<exists>a x b. parse (start_date c) = Some a \<and> parse (trade_time t) = Some x \<and>
                  parse (current_date c) = Some b \<and> a \<le> x \<and> x \<le> b)"
    using between_times[of "parse (trade_time t)" "parse (start_date c)" "parse (current_date c)"]
    by (auto simp: symbolTrades_def w)
next
  assume n: "\<not> isReplayActive rs"
  show "symbolTrades parse smb mkt rs ts = filter (symbolMatch smb mkt) ts"
    unfolding symbolTrades_def by (rule filter_cong[OF refl]) (simp add: n)
next
  have "symbolTrades parse smb mkt rs (symbolTrades parse smb mkt rs ts) = symbolTrades parse smb mkt rs ts"
    by (simp add: symbolTrades_def)
  then show "chartMarkers parse smb mkt rs ts kd
       = chartMarkers parse smb mkt rs (symbolTrades parse smb mkt rs ts) kd"
    by (simp add: chartMarkers_def)
qed

theorem symbolTrades_window_witness:
  "tradeAt 2 ''BUY'' 11 ''T+180s'' \<in> set (symbolTrades secondsParse ''BTC'' ''CRYPTO''
       (Some (replayClock ''T+100s'' ''T+300s'' ''T+250s'' 1 None))
       [tradeAt 1 ''BUY'' 10 ''T+99s'', tradeAt 2 ''BUY'' 11 ''T+180s'', tradeAt 3 ''SELL'' 12 ''T+260s''])
   \<and> tradeAt 3 ''SELL'' 12 ''T+260s'' \<notin> set (symbolTrades secondsParse ''BTC'' ''CRYPTO''
       (Some (replayClock ''T+100s'' ''T+300s'' ''T+250s'' 1 None))
       [tradeAt 1 ''BUY'' 10 ''T+99s'', tradeAt 2 ''BUY'' 11 ''T+180s'', tradeAt 3 ''SELL'' 12 ''T+260s''])
   \<and> symbolTrades secondsParse ''BTC'' ''CRYPTO'' None
       [tradeAt 1 ''BUY'' 10 ''T+99s'', (tradeAt 5 ''BUY'' 10 ''T+99s'')\<lparr>symbol := ''ETH''\<rparr>]
     = [tradeAt 1 ''BUY'' 10 ''T+99s'']"
proof -
  let ?r = "replayClock ''T+100s'' ''T+300s'' ''T+250s'' 1 None"
  let ?c = "\<lparr>start_date = ''T+100s'', end_date = ''T+300s'', current_date = ''T+250s'',
        speed_multiplier = 1, trading_interval_days = None, progress = None\<rparr>"
  let ?ts = "[tradeAt 1 ''BUY'' 10 ''T+99s'', tradeAt 2 ''BUY'' 11 ''T+180s'', tradeAt 3 ''SELL'' 12 ''T+260s'']"
  let ?us = "[tradeAt 1 ''BUY'' 10 ''T+99s'', (tradeAt 5 ''BUY'' 10 ''T+99s'')\<lparr>symbol := ''ETH''\<rparr>]"
  have na: "\<not> isReplayActive None" by (simp add: isReplayActive_def)
  have r: "active ?r" "state ?r = Some ?c" by (simp_all add: replayClock_def)
  have m: "symbolMatch ''BTC'' ''CRYPTO'' (tradeAt n sd p tm)"
     "\<not> symbolMatch ''BTC'' ''CRYPTO'' ((tradeAt n sd p tm)\<lparr>symbol := ''ETH''\<rparr>)" for n sd p tm
    by (simp_all add: symbolMatch_def tradeAt_def)
  have p: "secondsParse ''T+100s'' = Some 100000" "secondsParse ''T+250s'' = Some 250000"
      "secondsParse ''T+180s'' = Some 180000" "secondsParse ''T+260s'' = Some 260000"
    by (simp_all add: secondsParse_def tableParse_def)
  have tt: "trade_time (tradeAt n sd p tm) = tm" for n sd p tm by (simp add: tradeAt_def)
  have eq: "tradeAt n sd p tm = tradeAt n' sd' p' tm' \<longleftrightarrow> n = n' \<and> sd = sd' \<and> p = p' \<and> tm = tm'"
    for n sd p tm n' sd' p' tm' by (auto simp: tradeAt_def)
  have a1: "tradeAt 2 ''BUY'' 11 ''T+180s'' \<in> set ?ts" by (simp add: eq)
  have a3: "tradeAt 3 ''SELL'' 12 ''T+260s'' \<in> set ?ts" by (simp add: eq)
  have f: "filter (symbolMatch ''BTC'' ''CRYPTO'') ?us = [tradeAt 1 ''BUY'' 10 ''T+99s'']" by (simp add: m)
  have pre: "active ?r \<and> state ?r = Some ?c \<and> start_date ?c \<noteq> [] \<and> current_date ?c \<noteq> []"
    by (simp add: r)
  have A: "tradeAt 2 ''BUY'' 11 ''T+180s'' \<in> set (symbolTrades secondsParse ''BTC'' ''CRYPTO'' (Some ?r) ?ts)"
  proof -
    from pre symbolTrades_window[where r = ?r and c = ?c and parse = secondsParse and smb = "''BTC''"
        and mkt = "''CRYPTO''" and ts = ?ts and t = "tradeAt 2 ''BUY'' 11 ''T+180s''"]
    have "tradeAt 2 ''BUY'' 11 ''T+180s'' \<in> set (symbolTrades secondsParse ''BTC'' ''CRYPTO'' (Some ?r) ?ts) \<longleftrightarrow>
        tradeAt 2 ''BUY'' 11 ''T+180s'' \<in> set ?ts \<and> symbolMatch ''BTC'' ''CRYPTO'' (tradeAt 2 ''BUY'' 11 ''T+180s'') \<and>
         (\<exists>a x b. secondsParse (start_date ?c) = Some a \<and>
            secondsParse (trade_time (tradeAt 2 ''BUY'' 11 ''T+180s'')) = Some x \<and>
            secondsParse (current_date ?c) = Some b \<and> a \<le> x \<and> x \<le> b)"
      by blast
    then show ?thesis by (simp add: a1 m p tt)
  qed
  have B: "tradeAt 3 ''SELL'' 12 ''T+260s'' \<notin> set (symbolTrades secondsParse ''BTC'' ''CRYPTO'' (Some ?r) ?ts)"
  proof -
    from pre symbolTrades_window[where r = ?r and c = ?c and parse = secondsParse and smb = "''BTC''"
        and mkt = "''CRYPTO''" and ts = ?ts and t = "tradeAt 3 ''SELL'' 12 ''T+260s''"]
    have "tradeAt 3 ''SELL'' 12 ''T+260s'' \<in> set (symbolTrades secondsParse ''BTC'' ''CRYPTO'' (Some ?r) ?ts) \<longleftrightarrow>
        tradeAt 3 ''SELL'' 12 ''T+260s'' \<in> set ?ts \<and> symbolMatch ''BTC'' ''CRYPTO'' (tradeAt 3 ''SELL'' 12 ''T+260s'') \<and>
         (\<exists>a x b. secondsParse (start_date ?c) = Some a \<and>
            secondsParse (trade_time (tradeAt 3 ''SELL'' 12 ''T+260s'')) = Some x \<and>
            secondsParse (current_date ?c) = Some b \<and> a \<le> x \<and> x \<le> b)"
      by blast
    then show ?thesis by (simp add: a3 m p tt)
  qed
  have C: "symbolTrades secondsParse ''BTC'' ''CRYPTO'' None ?us = [tradeAt 1 ''BUY'' 10 ''T+99s'']"
  proof -
    from na symbolTrades_window[where rs = None and parse = secondsParse and smb = "''BTC''"
        and mkt = "''CRYPTO''" and ts = ?us]
    have "symbolTrades secondsParse ''BTC'' ''CRYPTO'' None ?us = filter (symbolMatch ''BTC'' ''CRYPTO'') ?us"
      by blast
    then show ?thesis by (simp only: f)
  qed
  show ?thesis using A B C by blast
qed

section \<open>Properties of the replay controls\<close>

subsection \<open>The polling guard\<close>

lemma pollInv_runFetch: "pollInv v \<Longrightarrow> pollInv (runFetch v)"
  by (simp add: pollInv_def runFetch_def emit_def)

lemma pollInv_settled: "pollInv v \<Longrightarrow> outstanding v \<noteq> 0 \<Longrightarrow> pollInv (runFetch_settled r v)"
  by (cases r) (simp_all add: pollInv_def runFetch_settled_def scheduleNext_def emit_def Let_def)

lemma pollInv_step: "pollInv v \<Longrightarrow> pollInv (pollStep v e)"
proof (cases e)
  case TimeoutFires
  assume "pollInv v"
  then have "pollInv (v\<lparr>pollTimeoutRef := None\<rparr>)" by (simp add: pollInv_def)
  then show ?thesis using TimeoutFires \<open>pollInv v\<close>
    by (auto simp: pollTimeoutFired_def split: option.splits intro: pollInv_runFetch)
next
  case (FetchSettles r)
  assume "pollInv v"
  then show ?thesis using FetchSettles by (simp add: pollInv_settled)
next
  case RunFetchCalled
  assume "pollInv v"
  then show ?thesis using RunFetchCalled by (simp add: pollInv_runFetch)
next
  case Unmounts
  assume "pollInv v"
  then show ?thesis using Unmounts by (simp add: pollInv_def pollCleanup_def)
qed

lemma pollInv_foldl: "pollInv v \<Longrightarrow> pollInv (foldl pollStep v es)"
  by (induction es arbitrary: v) (simp_all add: pollInv_step)

lemma pollInv_mounted: "pollInv pollMounted"
  by (simp add: pollMounted_def pollInv_def runFetch_def emit_def initialView_def)

lemma pollInv_run: "pollInv (pollRun es)"
  unfolding pollRun_def by (rule pollInv_foldl[OF pollInv_mounted])

text \<open>
  C2. Whatever happens to the mounted polling effect (timeouts firing, calls settling,
  further calls of \<open>runFetch\<close>, unmounting, in any order), at most one \<open>getReplayState\<close>
  call of the poll is outstanding. While one is in flight, a further \<open>runFetch\<close> changes
  nothing, and a timeout that fires only disarms itself: the tick is skipped, no call is
  made and nothing is queued for later.
\<close>

theorem poll_never_overlaps:
  "outstanding (pollRun es) \<le> 1
   \<and> (inFlightRef (pollRun es) \<longrightarrow>
        pollStep (pollRun es) RunFetchCalled = pollRun es
        \<and> pollStep (pollRun es) TimeoutFires = (pollRun es)\<lparr>pollTimeoutRef := None\<rparr>)"
proof -
  have "outstanding (pollRun es) \<le> 1"
    using pollInv_run[of es] by (simp add: pollInv_def split: if_splits)
  moreover have "pollStep v RunFetchCalled = v" if "inFlightRef v" for v
    using that by (simp add: runFetch_def)
  moreover have "pollStep v TimeoutFires = v\<lparr>pollTimeoutRef := None\<rparr>" if "inFlightRef v" for v
    using that by (simp add: runFetch_def pollTimeoutFired_def split: option.splits)
  ultimately show ?thesis by blast
qed

theorem poll_never_overlaps_witness:
  "outstanding (pollRun [FetchSettles Rejected, RunFetchCalled]) \<le> 1
   \<and> inFlightRef (pollRun [FetchSettles Rejected, RunFetchCalled])
   \<and> pollTimeoutRef (pollRun [FetchSettles Rejected, RunFetchCalled]) = Some 30000
   \<and> outstanding (pollStep (pollRun [FetchSettles Rejected, RunFetchCalled]) TimeoutFires) = 1
   \<and> pollStep (pollRun [FetchSettles Rejected, RunFetchCalled]) RunFetchCalled
        = pollRun [FetchSettles Rejected, RunFetchCalled]"
proof -
  have a: "inFlightRef (pollRun [FetchSettles Rejected, RunFetchCalled])"
    by (simp add: pollRun_def pollMounted_def initialView_def runFetch_def runFetch_settled_def
        scheduleNext_def emit_def Let_def)
  have b: "pollTimeoutRef (pollRun [FetchSettles Rejected, RunFetchCalled]) = Some 30000"
    by (simp add: pollRun_def pollMounted_def initialView_def runFetch_def runFetch_settled_def
        scheduleNext_def emit_def Let_def CONFIG_backoffMs_def)
  have c: "outstanding (pollRun [FetchSettles Rejected, RunFetchCalled]) = 1"
    by (simp add: pollRun_def pollMounted_def initialView_def runFetch_def runFetch_settled_def
        scheduleNext_def emit_def Let_def)
  show ?thesis
    using poll_never_overlaps[of "[FetchSettles Rejected, RunFetchCalled]"] a b c by simp
qed

subsection \<open>The polling cadence\<close>

lemma pollBusy_round:
  "pollBusy v \<Longrightarrow> pollBusy (pollStep (pollStep v (FetchSettles r)) TimeoutFires)"
  by (cases r)
     (simp_all add: pollBusy_def runFetch_settled_def scheduleNext_def emit_def Let_def
        pollTimeoutFired_def runFetch_def)

lemma pollBusy_rounds: "pollBusy v \<Longrightarrow> pollBusy (foldl pollStep v (pollRounds rs))"
  by (induction rs arbitrary: v)
     (simp_all add: pollRounds_def pollBusy_round del: pollStep.simps)

lemma pollBusy_mounted: "pollBusy pollMounted"
  by (simp add: pollMounted_def pollBusy_def runFetch_def emit_def initialView_def)

lemma pollBusy_settle:
  "pollBusy v \<Longrightarrow>
   pollTimeoutRef (pollStep v (FetchSettles r)) =
     Some (case r of Fulfilled st \<Rightarrow> 10000 | Rejected \<Rightarrow> 30000)
   \<and> outstanding (pollStep v (FetchSettles r)) = 0
   \<and> outstanding (pollStep (pollStep v (FetchSettles r)) TimeoutFires) = 1"
  by (cases r)
     (simp_all add: pollBusy_def runFetch_settled_def scheduleNext_def emit_def Let_def
        pollTimeoutFired_def runFetch_def CONFIG_normalMs_def CONFIG_backoffMs_def)

lemma timeoutsArmed_append: "timeoutsArmed (a @ b) = timeoutsArmed a @ timeoutsArmed b"
  by (induction a rule: timeoutsArmed.induct) simp_all

lemma pollBusy_settle_log:
  "pollBusy v \<Longrightarrow>
   timeoutsArmed (log (pollStep v (FetchSettles r))) =
     timeoutsArmed (log v) @ [case r of Fulfilled st \<Rightarrow> 10000 | Rejected \<Rightarrow> 30000]
   \<and> filter isNetworkCall (log (pollStep v (FetchSettles r))) = filter isNetworkCall (log v)
   \<and> log (pollStep (pollStep v (FetchSettles r)) TimeoutFires)
       = log (pollStep v (FetchSettles r)) @ [CallGetReplayState]"
  by (cases r)
     (simp_all add: pollBusy_def runFetch_settled_def scheduleNext_def emit_def Let_def
        pollTimeoutFired_def runFetch_def CONFIG_normalMs_def CONFIG_backoffMs_def
        timeoutsArmed_append)

lemma pollRounds_snoc: "pollRounds (rs @ [r]) = pollRounds rs @ [FetchSettles r, TimeoutFires]"
  by (simp add: pollRounds_def)

lemma pollRun_snoc: "pollRun (es @ [e]) = pollStep (pollRun es) e"
  by (simp add: pollRun_def)

lemma pollRun_snoc2: "pollRun (es @ [e, f]) = pollStep (pollStep (pollRun es) e) f"
  by (simp add: pollRun_def)

lemma pollBusy_run: "pollBusy (pollRun (pollRounds rs))"
  unfolding pollRun_def by (rule pollBusy_rounds[OF pollBusy_mounted])

lemma pollRounds_log:
  "timeoutsArmed (log (pollRun (pollRounds rs)))
     = map (\<lambda>r. case r of Fulfilled st \<Rightarrow> 10000 | Rejected \<Rightarrow> 30000) rs
   \<and> filter isNetworkCall (log (pollRun (pollRounds rs))) = replicate (Suc (length rs)) CallGetReplayState"
proof (induction rs rule: rev_induct)
  case Nil
  show ?case
    by (simp add: pollRounds_def pollRun_def pollMounted_def runFetch_def emit_def initialView_def)
next
  case (snoc r rs)
  note b = pollBusy_settle_log[OF pollBusy_run[of rs], of r]
  have l: "log (pollRun (pollRounds (rs @ [r])))
      = log (pollStep (pollRun (pollRounds rs)) (FetchSettles r)) @ [CallGetReplayState]"
    unfolding pollRounds_snoc pollRun_snoc2 using b by blast
  show ?case
    unfolding l using b snoc.IH
    by (simp add: timeoutsArmed_append replicate_append_same del: pollStep.simps)
qed

text \<open>
  C7. After any history of polls, each of which succeeded or failed, the timeout armed
  when the next poll settles is 10 seconds if that poll succeeded and 30 seconds if it
  failed. The \<open>setTimeout\<close> calls in the log are one for each settled poll, in order, each
  with the delay of its poll's outcome: the delay stays at 30 seconds through a run of
  failures and is back at 10 seconds after the first success. The log holds one
  \<open>getReplayState\<close> call for each poll and no other network call; no call is outstanding
  while the timeout is armed, and when it fires the one thing added to the log is the
  \<open>getReplayState\<close> call of the next poll.
\<close>

theorem poll_cadence:
  "pollTimeoutRef (pollRun (pollRounds rs @ [FetchSettles r])) =
     Some (case r of Fulfilled st \<Rightarrow> 10000 | Rejected \<Rightarrow> 30000)
   \<and> outstanding (pollRun (pollRounds rs @ [FetchSettles r])) = 0
   \<and> outstanding (pollRun (pollRounds rs @ [FetchSettles r, TimeoutFires])) = 1
   \<and> timeoutsArmed (log (pollRun (pollRounds rs @ [FetchSettles r])))
       = map (\<lambda>r. case r of Fulfilled st \<Rightarrow> 10000 | Rejected \<Rightarrow> 30000) (rs @ [r])
   \<and> filter isNetworkCall (log (pollRun (pollRounds rs @ [FetchSettles r])))
       = replicate (Suc (length rs)) CallGetReplayState
   \<and> log (pollRun (pollRounds rs @ [FetchSettles r, TimeoutFires]))
       = log (pollRun (pollRounds rs @ [FetchSettles r])) @ [CallGetReplayState]"
proof -
  note busy = pollBusy_run[of rs]
  note a = pollBusy_settle[OF busy, of r]
  note b = pollBusy_settle_log[OF busy, of r]
  note c = pollRounds_log[of rs]
  have t: "timeoutsArmed (log (pollRun (pollRounds rs @ [FetchSettles r])))
       = map (\<lambda>r. case r of Fulfilled st \<Rightarrow> 10000 | Rejected \<Rightarrow> 30000) (rs @ [r])"
    unfolding pollRun_snoc using b c by simp
  have n: "filter isNetworkCall (log (pollRun (pollRounds rs @ [FetchSettles r])))
       = replicate (Suc (length rs)) CallGetReplayState"
    unfolding pollRun_snoc using b c by simp
  have l: "log (pollRun (pollRounds rs @ [FetchSettles r, TimeoutFires]))
       = log (pollRun (pollRounds rs @ [FetchSettles r])) @ [CallGetReplayState]"
    unfolding pollRun_snoc pollRun_snoc2 using b by blast
  have o: "pollTimeoutRef (pollRun (pollRounds rs @ [FetchSettles r])) =
     Some (case r of Fulfilled st \<Rightarrow> 10000 | Rejected \<Rightarrow> 30000)
   \<and> outstanding (pollRun (pollRounds rs @ [FetchSettles r])) = 0
   \<and> outstanding (pollRun (pollRounds rs @ [FetchSettles r, TimeoutFires])) = 1"
    unfolding pollRun_snoc pollRun_snoc2 using a .
  show ?thesis using o t n l by blast
qed

theorem poll_cadence_witness:
  "pollTimeoutRef (pollRun (pollRounds [Rejected, Rejected] @ [FetchSettles Rejected])) = Some 30000
   \<and> pollTimeoutRef (pollRun (pollRounds [Rejected, Rejected]
        @ [FetchSettles (Fulfilled \<lparr>active = False, state = None\<rparr>)])) = Some 10000
   \<and> timeoutsArmed (log (pollRun (pollRounds [Rejected, Rejected]
        @ [FetchSettles (Fulfilled \<lparr>active = False, state = None\<rparr>)]))) = [30000, 30000, 10000]
   \<and> filter isNetworkCall (log (pollRun (pollRounds [Rejected, Rejected]
        @ [FetchSettles (Fulfilled \<lparr>active = False, state = None\<rparr>), TimeoutFires])))
       = [CallGetReplayState, CallGetReplayState, CallGetReplayState, CallGetReplayState]"
proof -
  note a = poll_cadence[of "[Rejected, Rejected]" Rejected]
  note b = poll_cadence[of "[Rejected, Rejected]" "Fulfilled \<lparr>active = False, state = None\<rparr>"]
  have r: "replicate (Suc (length [Rejected, Rejected])) CallGetReplayState
     = [CallGetReplayState, CallGetReplayState, CallGetReplayState]"
    by (simp add: numeral_3_eq_3)
  show ?thesis using a b by (simp add: r)
qed

subsection \<open>The auto-advance interval\<close>

lemma autoAdvanceRenders_armed:
  "timer = autoAdvanceEffect a \<Longrightarrow> autoAdvanceDeps a = autoAdvanceDeps prev \<Longrightarrow>
   autoAdvanceRenders prev timer hist = autoAdvanceEffect (lastArmed a hist)
   \<and> autoAdvanceDeps (lastArmed a hist) = autoAdvanceDeps (last (prev # hist))"
proof (induction hist arbitrary: prev timer a)
  case Nil
  then show ?case by simp
next
  case (Cons n hist)
  let ?a = "if autoAdvanceDeps n = autoAdvanceDeps a then a else n"
  have t: "autoAdvanceRerender prev n timer = autoAdvanceEffect ?a"
    using Cons.prems by (simp add: autoAdvanceRerender_def)
  have d: "autoAdvanceDeps ?a = autoAdvanceDeps n" by simp
  from Cons.IH[OF t d] show ?case by simp
qed

lemma lastArmed_mem: "lastArmed a hist = a \<or> lastArmed a hist \<in> set hist"
proof (induction hist arbitrary: a)
  case Nil
  then show ?case by simp
next
  case (Cons n hist)
  from Cons.IH[of "if autoAdvanceDeps n = autoAdvanceDeps a then a else n"]
  show ?case by (auto split: if_splits)
qed

lemma liveTimer_armed:
  "liveTimer hist = autoAdvanceEffect (lastArmed None hist)
   \<and> autoAdvanceDeps (lastArmed None hist) = autoAdvanceDeps (last (None # hist))"
  unfolding liveTimer_def by (rule autoAdvanceRenders_armed) simp_all

lemma deps_active_clock:
  assumes "autoAdvanceDeps x = autoAdvanceDeps (Some r)" "active r" "state r = Some c"
  shows "\<exists>r' c'. x = Some r' \<and> active r' \<and> state r' = Some c'
           \<and> speed_multiplier c' = speed_multiplier c"
proof (cases x)
  case None
  with assms show ?thesis by (simp add: autoAdvanceDeps_def)
next
  case (Some r')
  with assms show ?thesis by (cases "state r'") (auto simp: autoAdvanceDeps_def)
qed

lemma deps_inactive:
  assumes "autoAdvanceDeps x = autoAdvanceDeps y" "\<not> isReplayActive y"
  shows "autoAdvanceEffect x = None"
proof (cases x)
  case None
  then show ?thesis by (simp add: autoAdvanceEffect_def)
next
  case (Some r')
  with assms show ?thesis
    by (cases y) (auto simp: autoAdvanceDeps_def autoAdvanceEffect_def isReplayActive_def)
qed

lemma tick_calls_advance:
  "\<exists>rest. log (autoAdvanceTick tm advanced res v)
            = log v @ CallAdvanceReplay (tradingIntervalSeconds tm) # rest"
  by (cases res) (simp_all add: autoAdvanceTick_def emit_def)

lemma last_snoc_cons: "last (x # hist @ [y]) = y"
  by simp

lemma autoAdvanceRenders_snoc:
  "autoAdvanceRenders prev timer (hist @ [n]) =
     autoAdvanceRerender (last (prev # hist)) n (autoAdvanceRenders prev timer hist)"
  by (induction hist arbitrary: prev timer) simp_all

text \<open>
  C1, as the code has it. Take any sequence of renders after the mount that ends in an
  active replay state with a clock and a non-zero speed multiplier. Then an interval is
  live; it was armed at the latest render at which the speed multiplier or the active
  flag changed, and its period is 2000 milliseconds times the interval days read at that
  render, divided by the current speed multiplier (2 seconds of wall clock for a
  simulated day at speed 1); every tick of it first calls \<open>advanceReplay\<close> with those
  interval days times 86400 seconds. When the interval days have not changed since
  that render, these are the current interval days. A further render in which the speed
  multiplier or the active flag differs clears the interval and arms it anew from the
  new state, and after a render with an inactive state no interval is live.
\<close>

theorem autoAdvance_timer:
  assumes "last (None # hist) = Some r" "active r" "state r = Some c" "speed_multiplier c \<noteq> 0"
  shows "(\<exists>r' c'. lastArmed None hist = Some r' \<and> Some r' \<in> set hist \<and> state r' = Some c'
            \<and> speed_multiplier c' = speed_multiplier c
            \<and> liveTimer hist =
                 Some \<lparr>speedMs = Some (2000 * intervalDaysOf c' / speed_multiplier c),
                       tradingIntervalSeconds = intervalDaysOf c' * 86400\<rparr>
            \<and> (\<forall>tm. liveTimer hist = Some tm \<longrightarrow>
                  (\<exists>rest. log (autoAdvanceTick tm advanced res v)
                            = log v @ CallAdvanceReplay (intervalDaysOf c' * 86400) # rest)))
     \<and> ((\<forall>r' c'. lastArmed None hist = Some r' \<and> state r' = Some c' \<longrightarrow>
             intervalDaysOf c' = intervalDaysOf c) \<longrightarrow>
          liveTimer hist =
            Some \<lparr>speedMs = Some (2000 * intervalDaysOf c / speed_multiplier c),
                  tradingIntervalSeconds = intervalDaysOf c * 86400\<rparr>
          \<and> (\<forall>tm. liveTimer hist = Some tm \<longrightarrow>
                (\<exists>rest. log (autoAdvanceTick tm advanced res v)
                          = log v @ CallAdvanceReplay (intervalDaysOf c * 86400) # rest)))
     \<and> (autoAdvanceDeps nxt \<noteq> autoAdvanceDeps (Some r) \<longrightarrow>
          liveTimer (hist @ [nxt]) = autoAdvanceEffect nxt)
     \<and> (\<forall>r2 c2. nxt = Some r2 \<and> active r2 \<and> state r2 = Some c2
            \<and> speed_multiplier c2 \<noteq> speed_multiplier c \<and> speed_multiplier c2 \<noteq> 0 \<longrightarrow>
          liveTimer (hist @ [nxt]) =
            Some \<lparr>speedMs = Some (2000 * intervalDaysOf c2 / speed_multiplier c2),
                  tradingIntervalSeconds = intervalDaysOf c2 * 86400\<rparr>)
     \<and> (\<not> isReplayActive nxt \<longrightarrow> liveTimer (hist @ [nxt]) = None)"
proof -
  note la = liveTimer_armed[of hist]
  from la assms(1) have d: "autoAdvanceDeps (lastArmed None hist) = autoAdvanceDeps (Some r)" by simp
  from deps_active_clock[OF d assms(2,3)] obtain r' c' where
    a: "lastArmed None hist = Some r'" "active r'" "state r' = Some c'"
       "speed_multiplier c' = speed_multiplier c"
    by blast
  have mem: "Some r' \<in> set hist"
    using lastArmed_mem[of None hist] a(1) by auto
  have lt: "liveTimer hist =
      Some \<lparr>speedMs = Some (2000 * intervalDaysOf c' / speed_multiplier c),
            tradingIntervalSeconds = intervalDaysOf c' * 86400\<rparr>"
    using la a assms(4) by (simp add: autoAdvanceEffect_def js_div_def BASE_MS_PER_DAY_def)
  have tick: "\<forall>tm. liveTimer hist = Some tm \<longrightarrow>
                  (\<exists>rest. log (autoAdvanceTick tm advanced res v)
                            = log v @ CallAdvanceReplay (intervalDaysOf c' * 86400) # rest)"
  proof (intro allI impI)
    fix tm assume "liveTimer hist = Some tm"
    with lt have "tradingIntervalSeconds tm = intervalDaysOf c' * 86400" by auto
    with tick_calls_advance[of tm advanced res v]
    show "\<exists>rest. log (autoAdvanceTick tm advanced res v)
                  = log v @ CallAdvanceReplay (intervalDaysOf c' * 86400) # rest" by simp
  qed
  have first: "\<exists>r' c'. lastArmed None hist = Some r' \<and> Some r' \<in> set hist \<and> state r' = Some c'
            \<and> speed_multiplier c' = speed_multiplier c
            \<and> liveTimer hist =
                 Some \<lparr>speedMs = Some (2000 * intervalDaysOf c' / speed_multiplier c),
                       tradingIntervalSeconds = intervalDaysOf c' * 86400\<rparr>
            \<and> (\<forall>tm. liveTimer hist = Some tm \<longrightarrow>
                  (\<exists>rest. log (autoAdvanceTick tm advanced res v)
                            = log v @ CallAdvanceReplay (intervalDaysOf c' * 86400) # rest))"
    using a(1,3,4) mem lt tick by blast
  have same: "liveTimer hist =
            Some \<lparr>speedMs = Some (2000 * intervalDaysOf c / speed_multiplier c),
                  tradingIntervalSeconds = intervalDaysOf c * 86400\<rparr>
          \<and> (\<forall>tm. liveTimer hist = Some tm \<longrightarrow>
                (\<exists>rest. log (autoAdvanceTick tm advanced res v)
                          = log v @ CallAdvanceReplay (intervalDaysOf c * 86400) # rest))"
    if "\<forall>r' c'. lastArmed None hist = Some r' \<and> state r' = Some c' \<longrightarrow>
             intervalDaysOf c' = intervalDaysOf c"
  proof -
    from that a(1,3) have "intervalDaysOf c' = intervalDaysOf c" by blast
    with lt tick show ?thesis by simp
  qed
  have step: "liveTimer (hist @ [nxt]) = autoAdvanceRerender (Some r) nxt (liveTimer hist)"
    unfolding liveTimer_def autoAdvanceRenders_snoc using assms(1) by simp
  have rearm: "liveTimer (hist @ [nxt]) = autoAdvanceEffect nxt"
    if "autoAdvanceDeps nxt \<noteq> autoAdvanceDeps (Some r)"
    using that step by (simp add: autoAdvanceRerender_def)
  have faster: "liveTimer (hist @ [nxt]) =
            Some \<lparr>speedMs = Some (2000 * intervalDaysOf c2 / speed_multiplier c2),
                  tradingIntervalSeconds = intervalDaysOf c2 * 86400\<rparr>"
    if h: "nxt = Some r2 \<and> active r2 \<and> state r2 = Some c2
            \<and> speed_multiplier c2 \<noteq> speed_multiplier c \<and> speed_multiplier c2 \<noteq> 0"
    for r2 :: ReplayState and c2
  proof -
    from h assms(3) have "autoAdvanceDeps nxt \<noteq> autoAdvanceDeps (Some r)"
      by (simp add: autoAdvanceDeps_def)
    from rearm[OF this] h show ?thesis
      by (simp add: autoAdvanceEffect_def js_div_def BASE_MS_PER_DAY_def)
  qed
  have off: "liveTimer (hist @ [nxt]) = None" if n: "\<not> isReplayActive nxt"
  proof -
    from liveTimer_armed[of "hist @ [nxt]"]
    have "liveTimer (hist @ [nxt]) = autoAdvanceEffect (lastArmed None (hist @ [nxt]))"
      "autoAdvanceDeps (lastArmed None (hist @ [nxt])) = autoAdvanceDeps nxt"
      by simp_all
    with deps_inactive[OF _ n] show ?thesis by simp
  qed
  show ?thesis using first same rearm faster off by blast
qed

theorem autoAdvance_timer_witness:
  "last [None, Some (replayClock ''a'' ''b'' ''c'' 1 (Some 7)),
              Some (replayClock ''a'' ''b'' ''d'' 2 (Some 7))]
     = Some (replayClock ''a'' ''b'' ''d'' 2 (Some 7))
   \<and> lastArmed None [Some (replayClock ''a'' ''b'' ''c'' 1 (Some 7)),
                     Some (replayClock ''a'' ''b'' ''d'' 2 (Some 7))]
       = Some (replayClock ''a'' ''b'' ''d'' 2 (Some 7))
   \<and> liveTimer [Some (replayClock ''a'' ''b'' ''c'' 1 (Some 7)),
                Some (replayClock ''a'' ''b'' ''d'' 2 (Some 7))]
       = Some \<lparr>speedMs = Some 7000, tradingIntervalSeconds = 604800\<rparr>
   \<and> liveTimer ([Some (replayClock ''a'' ''b'' ''c'' 1 (Some 7)),
                 Some (replayClock ''a'' ''b'' ''d'' 2 (Some 7))]
                @ [Some (replayClock ''a'' ''b'' ''e'' 4 (Some 7))])
       = Some \<lparr>speedMs = Some 3500, tradingIntervalSeconds = 604800\<rparr>
   \<and> liveTimer ([Some (replayClock ''a'' ''b'' ''c'' 1 (Some 7)),
                 Some (replayClock ''a'' ''b'' ''d'' 2 (Some 7))] @ [None]) = None"
proof -
  let ?h = "[Some (replayClock ''a'' ''b'' ''c'' 1 (Some 7)),
             Some (replayClock ''a'' ''b'' ''d'' 2 (Some 7))]"
  let ?r = "replayClock ''a'' ''b'' ''d'' 2 (Some 7)"
  let ?c = "\<lparr>start_date = ''a'', end_date = ''b'', current_date = ''d'',
        speed_multiplier = 2, trading_interval_days = Some 7, progress = None\<rparr>"
  let ?n = "replayClock ''a'' ''b'' ''e'' 4 (Some 7)"
  let ?k = "\<lparr>start_date = ''a'', end_date = ''b'', current_date = ''e'',
        speed_multiplier = 4, trading_interval_days = Some 7, progress = None\<rparr>"
  have h: "last (None # ?h) = Some ?r" "active ?r" "state ?r = Some ?c" "speed_multiplier ?c \<noteq> 0"
    by (simp_all add: replayClock_def)
  have la: "lastArmed None ?h = Some ?r"
    by (simp add: autoAdvanceDeps_def replayClock_def)
  have days: "intervalDaysOf ?c = 7" "intervalDaysOf ?k = 7" by (simp_all add: intervalDaysOf_def)
  have cond: "\<forall>r' c'. lastArmed None ?h = Some r' \<and> state r' = Some c' \<longrightarrow>
             intervalDaysOf c' = intervalDaysOf ?c"
    unfolding la using h(3) by simp
  have nx: "Some ?n = Some ?n \<and> active ?n \<and> state ?n = Some ?k
      \<and> speed_multiplier ?k \<noteq> speed_multiplier ?c \<and> speed_multiplier ?k \<noteq> 0"
    by (simp add: replayClock_def)
  have off: "\<not> isReplayActive None" by (simp add: isReplayActive_def)
  from autoAdvance_timer[OF h, where nxt = "Some ?n"] cond
  have t1: "liveTimer ?h = Some \<lparr>speedMs = Some (2000 * intervalDaysOf ?c / speed_multiplier ?c),
                  tradingIntervalSeconds = intervalDaysOf ?c * 86400\<rparr>"
    by blast
  from autoAdvance_timer[OF h, where nxt = "Some ?n"] nx
  have t2: "liveTimer (?h @ [Some ?n]) =
      Some \<lparr>speedMs = Some (2000 * intervalDaysOf ?k / speed_multiplier ?k),
            tradingIntervalSeconds = intervalDaysOf ?k * 86400\<rparr>"
    by blast
  from autoAdvance_timer[OF h, where nxt = None] off
  have t3: "liveTimer (?h @ [None]) = None" by blast
  have l: "last [None, Some (replayClock ''a'' ''b'' ''c'' 1 (Some 7)), Some ?r] = Some ?r" by simp
  show ?thesis using l la t1 t2 t3 by (simp add: days)
qed

text \<open>
  C1 as the specification words it fails: for 7 interval days at speed 2 the period is
  7000 milliseconds, not the 302400 seconds it states. And a change of the interval days
  alone is in no dependency of the effect: the interval armed for 1 day stays armed as it
  was.
\<close>

theorem autoAdvance_period_counterexample:
  "autoAdvanceEffect (Some (replayClock ''a'' ''b'' ''c'' 2 (Some 7)))
     = Some \<lparr>speedMs = Some 7000, tradingIntervalSeconds = 604800\<rparr>
   \<and> (7000 :: real) \<noteq> 7 * 86400 / 2 * 1000
   \<and> autoAdvanceRerender (Some (replayClock ''a'' ''b'' ''c'' 2 (Some 1)))
        (Some (replayClock ''a'' ''b'' ''c'' 2 (Some 7)))
        (autoAdvanceEffect (Some (replayClock ''a'' ''b'' ''c'' 2 (Some 1))))
     = Some \<lparr>speedMs = Some 1000, tradingIntervalSeconds = 86400\<rparr>"
proof -
  have a: "autoAdvanceEffect (Some (replayClock ''a'' ''b'' ''c'' 2 (Some 7)))
     = Some \<lparr>speedMs = Some 7000, tradingIntervalSeconds = 604800\<rparr>"
    by (simp add: autoAdvanceEffect_def replayClock_def intervalDaysOf_def js_div_def
        BASE_MS_PER_DAY_def)
  have b: "(7000 :: real) \<noteq> 7 * 86400 / 2 * 1000" by simp
  have c: "autoAdvanceEffect (Some (replayClock ''a'' ''b'' ''c'' 2 (Some 1)))
     = Some \<lparr>speedMs = Some 1000, tradingIntervalSeconds = 86400\<rparr>"
    by (simp add: autoAdvanceEffect_def replayClock_def intervalDaysOf_def js_div_def
        BASE_MS_PER_DAY_def)
  have d: "autoAdvanceDeps (Some (replayClock ''a'' ''b'' ''c'' 2 (Some 7)))
      = autoAdvanceDeps (Some (replayClock ''a'' ''b'' ''c'' 2 (Some 1)))"
    by (simp add: autoAdvanceDeps_def replayClock_def)
  show ?thesis using a b c d by (simp add: autoAdvanceRerender_def)
qed

text \<open>The earlier revision of the effect did arm the period of the specification.\<close>

lemma autoAdvance_earlier_period:
  "autoAdvanceEffect_earlier (Some (replayClock ''a'' ''b'' ''c'' 2 (Some 7)))
     = Some \<lparr>speedMs = Some 302400000, tradingIntervalSeconds = 604800\<rparr>"
  by (simp add: autoAdvanceEffect_earlier_def replayClock_def intervalDaysOf_def js_div_def)

subsection \<open>Validation in handleStart\<close>

text \<open>
  C6. When the start date or the end date is missing, or both are dates and the start is
  not before the end, \<open>handleStart\<close> (of the view and of the dialog) does nothing but
  raise one error toast: the state is otherwise unchanged, the replay state with it, and
  the log gains no network call, so \<open>startReplay\<close> is not called.
\<close>

theorem handleStart_validation:
  assumes "sd = [] \<or> ed = [] \<or> (\<exists>a b. parse sd = Some a \<and> parse ed = Some b \<and> a \<ge> b)"
  shows "(startDate v = sd \<and> endDate v = ed \<longrightarrow>
           (\<exists>msg. handleStart parse v = v\<lparr>log := log v @ [ToastError msg]\<rparr>)
           \<and> filter isNetworkCall (log (handleStart parse v)) = filter isNetworkCall (log v)
           \<and> replayState (handleStart parse v) = replayState v)
     \<and> (dlg_startDate d = sd \<and> dlg_endDate d = ed \<longrightarrow>
           (\<exists>msg. dlg_handleStart parse toISOString d = d\<lparr>dlg_log := dlg_log d @ [ToastError msg]\<rparr>)
           \<and> filter isNetworkCall (dlg_log (dlg_handleStart parse toISOString d))
               = filter isNetworkCall (dlg_log d)
           \<and> dlg_replayState (dlg_handleStart parse toISOString d) = dlg_replayState d)"
proof -
  have ge: "startNotBeforeEnd parse sd ed" if "parse sd = Some a" "parse ed = Some b" "a \<ge> b" for a b
    using that by (simp add: startNotBeforeEnd_def js_ge_def getTime_def)
  have v: "\<exists>msg. handleStart parse v = v\<lparr>log := log v @ [ToastError msg]\<rparr>"
    if "startDate v = sd \<and> endDate v = ed"
    using assms that ge by (auto simp: handleStart_def emit_def)
  have dl: "\<exists>msg. dlg_handleStart parse toISOString d = d\<lparr>dlg_log := dlg_log d @ [ToastError msg]\<rparr>"
    if "dlg_startDate d = sd \<and> dlg_endDate d = ed"
    using assms that ge by (auto simp: dlg_handleStart_def dlg_emit_def)
  show ?thesis
  proof (intro conjI impI)
    assume h: "startDate v = sd \<and> endDate v = ed"
    from v[OF h] obtain msg where m: "handleStart parse v = v\<lparr>log := log v @ [ToastError msg]\<rparr>" ..
    show "\<exists>msg. handleStart parse v = v\<lparr>log := log v @ [ToastError msg]\<rparr>" using v[OF h] .
    show "filter isNetworkCall (log (handleStart parse v)) = filter isNetworkCall (log v)"
      by (simp add: m)
    show "replayState (handleStart parse v) = replayState v" by (simp add: m)
  next
    assume h: "dlg_startDate d = sd \<and> dlg_endDate d = ed"
    from dl[OF h] obtain msg where
      m: "dlg_handleStart parse toISOString d = d\<lparr>dlg_log := dlg_log d @ [ToastError msg]\<rparr>" ..
    show "\<exists>msg. dlg_handleStart parse toISOString d = d\<lparr>dlg_log := dlg_log d @ [ToastError msg]\<rparr>"
      using dl[OF h] .
    show "filter isNetworkCall (dlg_log (dlg_handleStart parse toISOString d))
               = filter isNetworkCall (dlg_log d)" by (simp add: m)
    show "dlg_replayState (dlg_handleStart parse toISOString d) = dlg_replayState d" by (simp add: m)
  qed
qed

theorem handleStart_validation_witness:
  "secondsParse ''T+250s'' = Some 250000 \<and> secondsParse ''T+100s'' = Some 100000
   \<and> (250000 :: int) \<ge> 100000
   \<and> filter isNetworkCall (log (handleStart secondsParse
        (initialView\<lparr>startDate := ''T+250s'', endDate := ''T+100s''\<rparr>))) = []
   \<and> handleStart secondsParse (initialView\<lparr>startDate := ''T+250s'', endDate := ''T+100s''\<rparr>)
       = initialView\<lparr>startDate := ''T+250s'', endDate := ''T+100s'',
           log := [ToastError ''Start date must be before end date'']\<rparr>
   \<and> handleStart secondsParse (initialView\<lparr>startDate := '''', endDate := ''T+100s''\<rparr>)
       = initialView\<lparr>startDate := '''', endDate := ''T+100s'',
           log := [ToastError ''Please select start and end dates'']\<rparr>
   \<and> log (handleStart secondsParse (initialView\<lparr>startDate := ''T+100s'', endDate := ''T+250s''\<rparr>))
       = [CallStartReplay ''T+100sT00:00:00Z'' ''T+250sT23:59:59Z'' 1 (Some 1)]"
proof -
  let ?v = "initialView\<lparr>startDate := ''T+250s'', endDate := ''T+100s''\<rparr>"
  have p: "secondsParse ''T+250s'' = Some 250000" "secondsParse ''T+100s'' = Some 100000"
    by (simp_all add: secondsParse_def tableParse_def)
  have pre: "''T+250s'' = [] \<or> ''T+100s'' = [] \<or>
      (\<exists>a b. secondsParse ''T+250s'' = Some a \<and> secondsParse ''T+100s'' = Some b \<and> a \<ge> b)"
    by (simp add: p)
  have f: "startDate ?v = ''T+250s'' \<and> endDate ?v = ''T+100s''" by simp
  from handleStart_validation[OF pre, of ?v] f
  have n: "filter isNetworkCall (log (handleStart secondsParse ?v)) = filter isNetworkCall (log ?v)"
    by blast
  have l: "log ?v = []" by (simp add: initialView_def)
  have e1: "handleStart secondsParse ?v
       = initialView\<lparr>startDate := ''T+250s'', endDate := ''T+100s'',
           log := [ToastError ''Start date must be before end date'']\<rparr>"
    by (simp add: handleStart_def startNotBeforeEnd_def p getTime_def js_ge_def emit_def initialView_def)
  have e2: "handleStart secondsParse (initialView\<lparr>startDate := '''', endDate := ''T+100s''\<rparr>)
       = initialView\<lparr>startDate := '''', endDate := ''T+100s'',
           log := [ToastError ''Please select start and end dates'']\<rparr>"
    by (simp add: handleStart_def emit_def initialView_def)
  have e3: "log (handleStart secondsParse (initialView\<lparr>startDate := ''T+100s'', endDate := ''T+250s''\<rparr>))
       = [CallStartReplay ''T+100sT00:00:00Z'' ''T+250sT23:59:59Z'' 1 (Some 1)]"
    by (simp add: handleStart_def startNotBeforeEnd_def p getTime_def js_ge_def emit_def initialView_def)
  show ?thesis using n l e1 e2 e3 p by simp
qed

section \<open>Properties of the application shell\<close>

subsection \<open>Reconnection after a close\<close>

lemma scheduled_handleClose:
  "scheduled (handleClose ws code s) =
     scheduled s @ (if code \<noteq> 1000 \<and> code \<noteq> 1001 then [(3000, ConnectWebSocket)] else [])"
  by (simp add: handleClose_def Let_def)

lemma scheduled_handleCloses:
  "scheduled (handleCloses evs s) =
     scheduled s @ map (\<lambda>e. (3000, ConnectWebSocket))
                      (filter (\<lambda>(ws, code). code \<noteq> 1000 \<and> code \<noteq> 1001) evs)"
  unfolding handleCloses_def
proof (induction evs arbitrary: s)
  case Nil
  then show ?case by simp
next
  case (Cons e evs)
  obtain ws code where e: "e = (ws, code)" by (cases e)
  show ?case
    by (simp add: e Cons.IH scheduled_handleClose)
qed

text \<open>
  C3. A close with a code other than 1000 and 1001 (1006, say) arms exactly one more
  timeout, of 3000 milliseconds, that reconnects; a close with code 1000 or 1001 arms
  none. Over any sequence of closes, the timeouts armed are as many as the closes with
  such a code, and each is a reconnect after 3000 milliseconds.
\<close>

theorem handleClose_reconnect:
  "(code \<noteq> 1000 \<and> code \<noteq> 1001 \<longrightarrow>
      scheduled (handleClose ws code s) = scheduled s @ [(3000, ConnectWebSocket)])
   \<and> (code = 1000 \<or> code = 1001 \<longrightarrow> scheduled (handleClose ws code s) = scheduled s)
   \<and> length (scheduled (handleCloses evs s)) =
       length (scheduled s) + length (filter (\<lambda>(ws, code). code \<noteq> 1000 \<and> code \<noteq> 1001) evs)
   \<and> (\<forall>t \<in> set (scheduled (handleCloses evs s)) - set (scheduled s). t = (3000, ConnectWebSocket))"
proof -
  have one: "scheduled (handleClose ws code s) = scheduled s @ [(3000, ConnectWebSocket)]"
    if "code \<noteq> 1000 \<and> code \<noteq> 1001"
    using that by (simp add: scheduled_handleClose)
  have none: "scheduled (handleClose ws code s) = scheduled s" if "code = 1000 \<or> code = 1001"
    using that by (auto simp: scheduled_handleClose)
  have count: "length (scheduled (handleCloses evs s)) =
       length (scheduled s) + length (filter (\<lambda>(ws, code). code \<noteq> 1000 \<and> code \<noteq> 1001) evs)"
    by (simp add: scheduled_handleCloses)
  have delay: "\<forall>t \<in> set (scheduled (handleCloses evs s)) - set (scheduled s). t = (3000, ConnectWebSocket)"
    by (auto simp: scheduled_handleCloses)
  show ?thesis using one none count delay by blast
qed

theorem handleClose_reconnect_witness:
  "scheduled (handleClose 1 1006 initialApp) = [(3000, ConnectWebSocket)]
   \<and> scheduled (handleClose 1 1000 initialApp) = []
   \<and> scheduled (handleClose 1 1001 initialApp) = []
   \<and> length (scheduled (handleCloses [(1, 1006), (2, 1000), (3, 1011)] initialApp)) = 2"
  using handleClose_reconnect[of 1006 1 initialApp "[(1, 1006), (2, 1000), (3, 1011)]"]
    handleClose_reconnect[of 1000 1 initialApp "[]"]
    handleClose_reconnect[of 1001 1 initialApp "[]"]
  by (simp add: initialApp_def)

subsection \<open>Applying a snapshot\<close>

text \<open>
  C8, as the code has it. A snapshot message of any of the three kinds replaces the
  overview, the positions and the orders by what the message carries, the trades and the
  decisions by what it carries or by the empty list when it carries none, and the curves
  only when it carries curves: a snapshot without curves leaves the known curves as they
  were. The user, the account, the messages sent and the timeouts are untouched.
\<close>

theorem applySnapshot_slices:
  "overview (handleMessage (Snapshot kind msg) s) = msg_overview msg
   \<and> positions (handleMessage (Snapshot kind msg) s) = msg_positions msg
   \<and> orders (handleMessage (Snapshot kind msg) s) = msg_orders msg
   \<and> trades (handleMessage (Snapshot kind msg) s) = (case msg_trades msg of None \<Rightarrow> [] | Some ts \<Rightarrow> ts)
   \<and> aiDecisions (handleMessage (Snapshot kind msg) s)
       = (case msg_ai_decisions msg of None \<Rightarrow> [] | Some ds \<Rightarrow> ds)
   \<and> allAssetCurves (handleMessage (Snapshot kind msg) s)
       = (case msg_all_asset_curves msg of None \<Rightarrow> allAssetCurves s | Some cs \<Rightarrow> cs)
   \<and> (msg_all_asset_curves msg = None \<longrightarrow>
        allAssetCurves (handleMessage (Snapshot kind msg) s) = allAssetCurves s)
   \<and> user (handleMessage (Snapshot kind msg) s) = user s
   \<and> account (handleMessage (Snapshot kind msg) s) = account s
   \<and> sent (handleMessage (Snapshot kind msg) s) = sent s
   \<and> scheduled (handleMessage (Snapshot kind msg) s) = scheduled s"
  by (cases "msg_all_asset_curves msg") (simp_all add: applySnapshot_def orEmpty_def Let_def)

theorem applySnapshot_slices_witness:
  "msg_all_asset_curves partialSnapshot = None
   \<and> allAssetCurves (handleMessage (Snapshot snapshot_fast partialSnapshot) knownApp) = [9]
   \<and> positions (handleMessage (Snapshot snapshot_fast partialSnapshot) knownApp) = Some [2]"
  using applySnapshot_slices[of snapshot_fast partialSnapshot knownApp]
  by (simp add: partialSnapshot_def knownApp_def initialApp_def)

text \<open>
  C8 as the specification words it fails for the slices other than the curves: a
  snapshot that leaves out the trades and the decisions empties both.
\<close>

theorem snapshot_omission_counterexample:
  "msg_trades partialSnapshot = None \<and> msg_ai_decisions partialSnapshot = None
   \<and> trades knownApp = [7] \<and> aiDecisions knownApp = [8]
   \<and> trades (handleMessage (Snapshot snapshot_fast partialSnapshot) knownApp) = []
   \<and> aiDecisions (handleMessage (Snapshot snapshot_fast partialSnapshot) knownApp) = []
   \<and> trades (handleMessage (Snapshot snapshot_fast partialSnapshot) knownApp) \<noteq> trades knownApp"
  by (simp add: partialSnapshot_def knownApp_def initialApp_def applySnapshot_def orEmpty_def)

end
